theory Spec2Isabelle
  imports Main
begin

section \<open>Strings, errors and list primitives\<close>

text \<open>
  A Python \<open>str\<close> is a sequence of Unicode code points and \<open>len\<close> counts code points.
  A string is therefore modelled as the list of its code points; an ASCII literal of the
  source is written \<open>lit ''...''\<close>.
\<close>

type_synonym ustring = "nat list"

definition lit :: "string \<Rightarrow> ustring" where
  "lit s = map of_char s"

definition nl :: ustring where
  "nl = [10]"

datatype error = IndexError | KeyError | TypeError | ValueError

text \<open>\<open>sep.join(xs)\<close>.\<close>

fun join :: "ustring \<Rightarrow> ustring list \<Rightarrow> ustring" where
  "join sep [] = []"
| "join sep [x] = x"
| "join sep (x # y # ys) = x @ sep @ join sep (y # ys)"

text \<open>
  \<open>xs.pop(i)\<close> for an index \<open>i \<ge> 0\<close>: the element and the list without it; IndexError
  when the index is out of range (in particular on the empty list).
\<close>

definition pop :: "'a list \<Rightarrow> nat \<Rightarrow> error + ('a \<times> 'a list)" where
  "pop xs i = (if i < length xs then Inr (xs ! i, take i xs @ drop (Suc i) xs)
               else Inl IndexError)"

text \<open>\<open>xs.insert(i, x)\<close> for an index \<open>i \<ge> 0\<close>; an index beyond the end appends.\<close>

definition insert_at :: "'a list \<Rightarrow> nat \<Rightarrow> 'a \<Rightarrow> 'a list" where
  "insert_at xs i x = take i xs @ x # drop i xs"

section \<open>Truncation of the Commits field (\<open>make_embed\<close>, lines 84 to 96)\<close>

text \<open>One iteration of the \<open>while diff > 0\<close> loop: pop the middle line, reduce \<open>diff\<close>.\<close>

definition truncate_step :: "ustring list \<Rightarrow> int \<Rightarrow> error + (ustring list \<times> int)" where
  "truncate_step formatted diff =
     (case pop formatted (length formatted div 2) of
        Inl e \<Rightarrow> Inl e
      | Inr (line, formatted') \<Rightarrow> Inr (formatted', diff - (int (length line) + 1)))"

function truncate_loop :: "ustring list \<Rightarrow> int \<Rightarrow> error + (ustring list \<times> int)" where
  "truncate_loop formatted diff =
     (if diff > 0 then
        (case truncate_step formatted diff of
           Inl e \<Rightarrow> Inl e
         | Inr (formatted', diff') \<Rightarrow> truncate_loop formatted' diff')
      else Inr (formatted, diff))"
  by pat_completeness auto
termination
  by (relation "measure (\<lambda>(formatted, diff). nat diff)")
     (auto simp: truncate_step_def pop_def split: if_splits)

declare truncate_loop.simps [simp del]

text \<open>The value of the Commits field computed from the formatted commit lines.\<close>

definition commits_value :: "ustring list \<Rightarrow> error + ustring" where
  "commits_value formatted =
     (let result = join nl formatted in
      if length result > 1024 then
        (case truncate_loop formatted (int (length result) - 1024 + 4) of
           Inl e \<Rightarrow> Inl e
         | Inr (formatted', diff') \<Rightarrow>
             Inr (join nl (insert_at formatted' (length formatted' div 2 + 1) (lit ''...''))))
      else Inr result)"

text \<open>
  The total length that the loop can remove from a list of lines: each popped line
  reduces \<open>diff\<close> by its length plus one.
\<close>

definition removable :: "ustring list \<Rightarrow> nat" where
  "removable xs = sum_list (map (\<lambda>l. length l + 1) xs)"

subsection \<open>The truncation algorithm as the specification words it\<close>

text \<open>
  Section 4.3 of the specification: compute \<open>excess = length(result) - 1024 + 4\<close>;
  repeatedly remove the line at index \<open>floor(count/2)\<close> and subtract
  \<open>length(removedLine) + 1\<close> from \<open>excess\<close> until \<open>excess \<le> 0\<close>; then insert a
  literal \<open>...\<close> line at index \<open>floor(remainingCount/2) + 1\<close>; rejoin with newlines.
  The specification does not say what removing from an empty list means; here nothing
  is removed and the removed line counts as empty.
\<close>

function spec_remove :: "ustring list \<Rightarrow> int \<Rightarrow> ustring list" where
  "spec_remove lines excess =
     (if excess > 0 then
        (let i = length lines div 2;
             removedLine = (if i < length lines then lines ! i else [])
         in spec_remove (take i lines @ drop (Suc i) lines)
              (excess - (int (length removedLine) + 1)))
      else lines)"
  by pat_completeness auto
termination
  by (relation "measure (\<lambda>(lines, excess). nat excess)") auto

declare spec_remove.simps [simp del]

definition spec_commits_value :: "ustring list \<Rightarrow> ustring" where
  "spec_commits_value commits =
     (let joined = join nl commits;
          excess = int (length joined) - 1024 + 4;
          remaining = spec_remove commits excess;
          k = length remaining div 2 + 1
      in join nl (take k remaining @ [lit ''...''] @ drop k remaining))"

section \<open>Issue records and embeds (\<open>make_embed\<close>)\<close>

text \<open>
  The JSON objects consumed by \<open>make_embed\<close>, with the keys the function reads.
  \<open>locked\<close> and \<open>pull_request\<close> are read with \<open>data.get\<close> and may be absent;
  \<open>issue_pull_request\<close> holds the \<open>url\<close> entry of the pull-request object. The
  body is a string or the JSON \<open>null\<close> (\<open>None\<close>), which the tracker sends for an
  issue without text.
\<close>

record user =
  user_login :: ustring
  user_html_url :: ustring
  user_avatar_url :: ustring

record commit =
  commit_sha :: ustring
  commit_html_url :: ustring
  commit_message :: ustring
  commit_committer_login :: ustring

record issue =
  issue_title :: ustring
  issue_html_url :: ustring
  issue_body :: "ustring option"
  issue_user :: user
  issue_locked :: bool
  issue_pull_request :: "ustring option"
  issue_comments :: int
  issue_state :: ustring
  issue_closed_at :: ustring
  issue_closed_by_login :: ustring
  issue_labels :: "ustring list"

record embed =
  embed_title :: ustring
  embed_url :: "ustring option"
  embed_description :: ustring
  embed_color :: "nat option"
  embed_author :: "user option"
  embed_fields :: "(ustring \<times> ustring) list"

text \<open>\<open>str(n)\<close> for an integer: its decimal digits, with a minus sign when negative.\<close>

fun str_nat :: "nat \<Rightarrow> ustring" where
  "str_nat n = (if n < 10 then [48 + n] else str_nat (n div 10) @ [48 + n mod 10])"

declare str_nat.simps [simp del]

definition str_int :: "int \<Rightarrow> ustring" where
  "str_int i = (if i < 0 then 45 # str_nat (nat (- i)) else str_nat (nat i))"

text \<open>
  Lines 51 to 53: the constructor of the external \<open>discord.Embed\<close> keeps a string
  description as it is. What it keeps for \<open>None\<close> depends on the release of the library
  and is the parameter \<open>null_text\<close>: the text of \<open>str(None)\<close>, that is
  \<open>Some (lit ''None'')\<close>, or no string at all, that is \<open>None\<close>.
\<close>

definition embed_description_init :: "ustring option \<Rightarrow> ustring option \<Rightarrow> ustring option" where
  "embed_description_init null_text body =
     (case body of None \<Rightarrow> null_text | Some text \<Rightarrow> Some text)"

text \<open>Lines 55 to 57: the description, cut to 2043 characters and a marker above 2048.\<close>

definition truncate_description :: "ustring \<Rightarrow> ustring" where
  "truncate_description description =
     (if length description > 2048 then take 2043 description @ lit ''[...]''
      else description)"

text \<open>
  Lines 51 to 57 together; \<open>len(embed.description)\<close> raises TypeError when the
  description is not a string.
\<close>

definition describe :: "ustring option \<Rightarrow> ustring option \<Rightarrow> error + ustring" where
  "describe null_text body =
     (case embed_description_init null_text body of
        None \<Rightarrow> Inl TypeError
      | Some description \<Rightarrow> Inr (truncate_description description))"

text \<open>Lines 77 to 82: one formatted line per commit.\<close>

definition format_commit :: "commit \<Rightarrow> ustring" where
  "format_commit c =
     lit ''[`'' @ take 7 (commit_sha c) @ lit ''`]('' @ commit_html_url c @ lit '')''
     @ lit '' '' @ commit_message c @ lit '' - '' @ commit_committer_login c"

text \<open>
  Lines 103 to 113: the line about the state. \<open>strptime_strftime\<close> stands for the
  library call \<open>datetime.strptime(x, "%Y-%m-%dT%H:%M:%SZ").strftime("%b. %d %H:%M %Y")\<close>,
  which raises ValueError (here \<open>None\<close>) on a string that is not such a timestamp.
\<close>

definition state_infos :: "(ustring \<Rightarrow> ustring option) \<Rightarrow> issue \<Rightarrow> error + ustring list" where
  "state_infos strptime_strftime data =
     (if issue_state data = lit ''closed'' then
        (case strptime_strftime (issue_closed_at data) of
           None \<Rightarrow> Inl ValueError
         | Some closed_at \<Rightarrow>
             Inr [lit '':x: Closed by '' @ issue_closed_by_login data @ lit '' on '' @ closed_at])
      else if issue_state data = lit ''open'' then Inr [lit '':white_check_mark: Open'']
      else Inr [])"

text \<open>Lines 115 to 117: the line about the labels.\<close>

definition label_infos :: "issue \<Rightarrow> ustring list" where
  "label_infos data =
     (if issue_labels data \<noteq> [] then
        [lit '':label: Labels: `'' @ join (lit ''` `'') (issue_labels data) @ lit ''`'']
      else [])"

text \<open>
  \<open>make_embed\<close>. \<open>commits_get\<close> gives the JSON answer of the GET request to the given
  URL (the commits of a pull request). The Commits field is added before the
  Additional informations field, whose lines are collected in the order of the source.
\<close>

definition make_embed ::
  "ustring option \<Rightarrow> (ustring \<Rightarrow> ustring option) \<Rightarrow> (ustring \<Rightarrow> commit list) \<Rightarrow> issue
     \<Rightarrow> error + embed" where
  "make_embed null_text strptime_strftime commits_get data =
     (case describe null_text (issue_body data) of
        Inl e \<Rightarrow> Inl e
      | Inr description \<Rightarrow>
     (let locked_infos = (if issue_locked data then [lit '':lock: locked''] else []);
          pull_infos = (case issue_pull_request data of
                          None \<Rightarrow> []
                        | Some url \<Rightarrow> [lit '':arrows_clockwise: Pull request'']);
          commits_fields =
            (case issue_pull_request data of
               None \<Rightarrow> Inr []
             | Some url \<Rightarrow>
                 (case commits_value (map format_commit (commits_get (url @ lit ''/commits''))) of
                    Inl e \<Rightarrow> Inl e
                  | Inr result \<Rightarrow> Inr [(lit ''Commits'', result)]));
          comment_infos =
            (if issue_comments data \<noteq> 0 then
               [lit '':speech_balloon: Comments : '' @ str_int (issue_comments data)]
             else [])
      in case commits_fields of
           Inl e \<Rightarrow> Inl e
         | Inr cfields \<Rightarrow>
             (case state_infos strptime_strftime data of
                Inl e \<Rightarrow> Inl e
              | Inr state_lines \<Rightarrow>
                  Inr \<lparr> embed_title = issue_title data,
                        embed_url = Some (issue_html_url data),
                        embed_description = description,
                        embed_color = None,
                        embed_author = Some (issue_user data),
                        embed_fields = cfields @
                          [(lit ''Additional informations'',
                            join nl (locked_infos @ pull_infos @ comment_infos
                                     @ state_lines @ label_infos data))] \<rparr>)))"

subsection \<open>Sample records\<close>

definition example_user :: user where
  "example_user =
     \<lparr> user_login = lit ''octocat'',
       user_html_url = lit ''https://github.com/octocat'',
       user_avatar_url = lit ''https://github.com/octocat.png'' \<rparr>"

definition example_issue :: issue where
  "example_issue =
     \<lparr> issue_title = lit ''Crash'',
       issue_html_url = lit ''https://github.com/omega-numworks/omega/issues/1'',
       issue_body = Some (lit ''It crashes.''),
       issue_user = example_user,
       issue_locked = False,
       issue_pull_request = None,
       issue_comments = 0,
       issue_state = lit ''open'',
       issue_closed_at = [],
       issue_closed_by_login = [],
       issue_labels = [] \<rparr>"

definition example_commit :: "nat \<Rightarrow> commit" where
  "example_commit c =
     \<lparr> commit_sha = lit ''0123456789abcdef'',
       commit_html_url = lit ''u'',
       commit_message = replicate 600 c,
       commit_committer_login = lit ''a'' \<rparr>"

definition example_commits :: "ustring \<Rightarrow> commit list" where
  "example_commits url = [example_commit 97, example_commit 98, example_commit 99]"

text \<open>The names and the lengths of the values of the fields of an embed.\<close>

definition field_lengths :: "embed \<Rightarrow> (ustring \<times> nat) list" where
  "field_lengths e = map (\<lambda>(name, v). (name, length v)) (embed_fields e)"

text \<open>An open issue that carries 25 labels whose names have 50 characters each.\<close>

definition labelled_issue :: issue where
  "labelled_issue = example_issue\<lparr>issue_labels := replicate 25 (replicate 50 97)\<rparr>"

text \<open>An issue without text: the tracker sends \<open>null\<close> for its body.\<close>

definition bodyless_issue :: issue where
  "bodyless_issue = example_issue\<lparr>issue_body := None\<rparr>"

section \<open>The dismissible embeds (\<open>issue_embeds\<close>)\<close>

text \<open>
  The calls a handler makes on the chat platform and on the network are recorded as a
  trace of actions. The platform's own failures are not modelled: every call returns.
\<close>

datatype action =
    HttpGet ustring
  | Send ustring
  | SendEmbed "embed option"
  | AddReaction nat ustring
  | RemoveReaction nat ustring
  | FetchUser nat
  | FetchMessage nat nat
  | DeleteMessage nat

text \<open>The trash emoji of the source: U+1F5D1 followed by U+FE0F.\<close>

definition trash :: ustring where
  "trash = [0x1F5D1, 0xFE0F]"

text \<open>The dictionary \<open>self.issue_embeds\<close>, from message ids to the stored value.\<close>

type_synonym registry = "nat \<rightharpoonup> nat"

text \<open>
  A raw reaction event. \<open>reaction_user_is_bot\<close> is the \<open>bot\<close> flag of the user that
  \<open>fetch_user(reaction.user_id)\<close> returns.
\<close>

record reaction =
  reaction_user_id :: nat
  reaction_user_is_bot :: bool
  reaction_emoji_name :: ustring
  reaction_message_id :: nat
  reaction_channel_id :: nat

text \<open>
  Lines 186 to 188 of \<open>on_message\<close>: send the embed (the platform answers with the new
  message, whose id is \<open>msg_id\<close>), add the reaction, store the id.
\<close>

definition post_issue_embed :: "registry \<Rightarrow> embed \<Rightarrow> nat \<Rightarrow> registry \<times> action list" where
  "post_issue_embed issue_embeds e msg_id =
     (issue_embeds(msg_id \<mapsto> 1), [SendEmbed (Some e), AddReaction msg_id trash])"

text \<open>
  Lines 192 and 193 of \<open>on_message\<close>, run after the sleep of 60 seconds: remove the
  reaction, then \<open>self.issue_embeds.pop(issue_embed.id)\<close>, which has no default and
  raises KeyError when the key is absent.
\<close>

definition timeout_cleanup :: "registry \<Rightarrow> nat \<Rightarrow> action list \<times> (error + registry)" where
  "timeout_cleanup issue_embeds msg_id =
     ([RemoveReaction msg_id trash],
      (case issue_embeds msg_id of
         None \<Rightarrow> Inl KeyError
       | Some v \<Rightarrow> Inr (issue_embeds(msg_id := None))))"

text \<open>
  \<open>on_raw_reaction_add\<close>. The dictionary is touched once, by
  \<open>self.issue_embeds.pop(reaction.message_id, None)\<close>, evaluated only when the emoji is
  the trash emoji; the message is deleted when the popped value is truthy. The handler is
  taken as one atomic step, placed where that \<open>pop\<close> runs.
\<close>

definition on_raw_reaction_add :: "registry \<Rightarrow> reaction \<Rightarrow> registry \<times> action list" where
  "on_raw_reaction_add issue_embeds r =
     (if reaction_user_is_bot r then (issue_embeds, [FetchUser (reaction_user_id r)])
      else if reaction_emoji_name r = trash then
        (case issue_embeds (reaction_message_id r) of
           None \<Rightarrow> (issue_embeds, [FetchUser (reaction_user_id r)])
         | Some v \<Rightarrow>
             (issue_embeds(reaction_message_id r := None),
              FetchUser (reaction_user_id r) #
                (if v \<noteq> 0 then
                   [FetchMessage (reaction_channel_id r) (reaction_message_id r),
                    DeleteMessage (reaction_message_id r)]
                 else [])))
      else (issue_embeds, [FetchUser (reaction_user_id r)]))"

subsection \<open>Interleavings of the handlers\<close>

text \<open>
  The handlers run on one cooperative event loop, so a run of the bot is a sequence of
  the steps above in some order: an embed is posted and registered, a reaction arrives,
  the sleep of some embed ends. A cleanup that raises ends its handler and is recorded
  in \<open>failures\<close>.
\<close>

datatype event = Posted embed nat | Reacted reaction | TimedOut nat

record world =
  issue_embeds :: registry
  trace :: "action list"
  failures :: "error list"

definition initial_world :: world where
  "initial_world = \<lparr> issue_embeds = Map.empty, trace = [], failures = [] \<rparr>"

fun step :: "world \<Rightarrow> event \<Rightarrow> world" where
  "step w (Posted e msg_id) =
     (case post_issue_embed (issue_embeds w) e msg_id of
        (reg, acts) \<Rightarrow> w\<lparr>issue_embeds := reg, trace := trace w @ acts\<rparr>)"
| "step w (Reacted r) =
     (case on_raw_reaction_add (issue_embeds w) r of
        (reg, acts) \<Rightarrow> w\<lparr>issue_embeds := reg, trace := trace w @ acts\<rparr>)"
| "step w (TimedOut msg_id) =
     (case timeout_cleanup (issue_embeds w) msg_id of
        (acts, Inl e) \<Rightarrow> w\<lparr>trace := trace w @ acts, failures := failures w @ [e]\<rparr>
      | (acts, Inr reg) \<Rightarrow> w\<lparr>issue_embeds := reg, trace := trace w @ acts\<rparr>)"

fun run :: "world \<Rightarrow> event list \<Rightarrow> world" where
  "run w [] = w"
| "run w (ev # evs) = run (step w ev) evs"

fun registrations :: "nat \<Rightarrow> event list \<Rightarrow> nat" where
  "registrations m [] = 0"
| "registrations m (Posted e msg_id # evs) = (if msg_id = m then 1 else 0) + registrations m evs"
| "registrations m (ev # evs) = registrations m evs"

definition deletions :: "nat \<Rightarrow> action list \<Rightarrow> nat" where
  "deletions m acts = count_list acts (DeleteMessage m)"

definition example_embed :: embed where
  "example_embed =
     \<lparr> embed_title = lit ''Crash'',
       embed_url = Some (lit ''https://github.com/omega-numworks/omega/issues/1''),
       embed_description = lit ''It crashes.'',
       embed_color = None,
       embed_author = Some example_user,
       embed_fields = [(lit ''Additional informations'', lit '':white_check_mark: Open'')] \<rparr>"

definition example_reaction :: reaction where
  "example_reaction =
     \<lparr> reaction_user_id = 42,
       reaction_user_is_bot = False,
       reaction_emoji_name = trash,
       reaction_message_id = 7,
       reaction_channel_id = 3 \<rparr>"

section \<open>Regular expressions of the source (\<open>re\<close>)\<close>

text \<open>
  The fragment of Python's \<open>re\<close> syntax that the source uses, without flags: a literal
  character, a character class given by its ranges, \<open>^\<close>, \<open>$\<close>, sequence, alternation,
  \<open>r?\<close>, \<open>[...]+\<close>, \<open>r{n}\<close>, a numbered capturing group and the lookahead \<open>(?=r)\<close>.
\<close>

datatype regex =
    Chr nat
  | Cls "(nat \<times> nat) list"
  | Bol
  | Eol
  | Seq regex regex
  | Alt regex regex
  | Opt regex
  | Plus "(nat \<times> nat) list"
  | Rep nat regex
  | Grp nat regex
  | Look regex

fun in_class :: "(nat \<times> nat) list \<Rightarrow> nat \<Rightarrow> bool" where
  "in_class [] c = False"
| "in_class ((lo, hi) # rs) c = ((lo \<le> c \<and> c \<le> hi) \<or> in_class rs c)"

text \<open>
  A matcher state is the current position and the spans captured so far. The matcher
  returns the states in which a match of the expression can end, in the order in which
  the backtracking engine tries them (a greedy operator tries the longer match first);
  the engine commits to the first one that lets the rest of the pattern match.
  Without the MULTILINE flag, \<open>^\<close> matches at position 0 only, and \<open>$\<close> matches at the end
  of the string and just before a newline that is its last character.
\<close>

type_synonym captures = "nat \<rightharpoonup> nat \<times> nat"

definition at_end :: "ustring \<Rightarrow> nat \<Rightarrow> bool" where
  "at_end s p \<longleftrightarrow> p = length s \<or> (p + 1 = length s \<and> s ! p = 10)"

definition span :: "(nat \<times> nat) list \<Rightarrow> ustring \<Rightarrow> nat \<Rightarrow> nat" where
  "span rs s p = length (takeWhile (in_class rs) (drop p s))"

fun weight :: "regex \<Rightarrow> nat" where
  "weight (Seq a b) = Suc (weight a + weight b)"
| "weight (Alt a b) = Suc (weight a + weight b)"
| "weight (Opt a) = Suc (weight a)"
| "weight (Rep n a) = Suc (n + weight a)"
| "weight (Grp i a) = Suc (weight a)"
| "weight (Look a) = Suc (weight a)"
| "weight r = 0"

function matches :: "regex \<Rightarrow> ustring \<Rightarrow> nat \<times> captures \<Rightarrow> (nat \<times> captures) list" where
  "matches (Chr c) s (p, g) = (if p < length s \<and> s ! p = c then [(p + 1, g)] else [])"
| "matches (Cls rs) s (p, g) =
     (if p < length s \<and> in_class rs (s ! p) then [(p + 1, g)] else [])"
| "matches Bol s (p, g) = (if p = 0 then [(p, g)] else [])"
| "matches Eol s (p, g) =
     (if at_end s p then [(p, g)] else [])"
| "matches (Seq a b) s st = concat (map (matches b s) (matches a s st))"
| "matches (Alt a b) s st = matches a s st @ matches b s st"
| "matches (Opt a) s st = matches a s st @ [st]"
| "matches (Plus rs) s (p, g) = map (\<lambda>k. (p + k, g)) (rev [1..<span rs s p + 1])"
| "matches (Rep 0 a) s st = [st]"
| "matches (Rep (Suc n) a) s st = concat (map (matches (Rep n a) s) (matches a s st))"
| "matches (Grp i a) s (p, g) = map (\<lambda>(q, g'). (q, g'(i \<mapsto> (p, q)))) (matches a s (p, g))"
| "matches (Look a) s (p, g) =
     (case matches a s (p, g) of [] \<Rightarrow> [] | (q, g') # rest \<Rightarrow> [(p, g')])"
  by pat_completeness auto
termination
  by (relation "measure (\<lambda>(r, s, st). weight r)") auto

text \<open>The match of the pattern that starts at position \<open>p\<close>, if there is one.\<close>

definition match_at :: "regex \<Rightarrow> ustring \<Rightarrow> nat \<Rightarrow> (nat \<times> captures) option" where
  "match_at r s p = (case matches r s (p, Map.empty) of [] \<Rightarrow> None | m # rest \<Rightarrow> Some m)"

text \<open>\<open>re.match\<close>: a match at the start of the string.\<close>

definition re_match :: "regex \<Rightarrow> ustring \<Rightarrow> (nat \<times> captures) option" where
  "re_match r s = match_at r s 0"

text \<open>\<open>re.search\<close>: the match at the leftmost position that has one.\<close>

definition re_search :: "regex \<Rightarrow> ustring \<Rightarrow> (nat \<times> captures) option" where
  "re_search r s = (case List.map_filter (match_at r s) [0..<length s + 1] of
                      [] \<Rightarrow> None | m # rest \<Rightarrow> Some m)"

text \<open>The text of a group; a group that took no part in the match gives the empty string.\<close>

definition group :: "ustring \<Rightarrow> captures \<Rightarrow> nat \<Rightarrow> ustring" where
  "group s g i = (case g i of None \<Rightarrow> [] | Some (b, e) \<Rightarrow> take (e - b) (drop b s))"

text \<open>
  \<open>re.findall\<close> for a pattern with four groups whose matches are all empty (a
  lookahead): after an empty match the scan moves on by one character, so every position
  from 0 to the length of the string is tried once. The result lists, with the position
  of each match, the tuple of its groups.
\<close>

definition findall_at ::
  "regex \<Rightarrow> ustring \<Rightarrow> (nat \<times> ustring \<times> ustring \<times> ustring \<times> ustring) list" where
  "findall_at r s =
     List.map_filter
       (\<lambda>p. case match_at r s p of
               None \<Rightarrow> None
             | Some (q, g) \<Rightarrow> Some (p, group s g 1, group s g 2, group s g 3, group s g 4))
       [0..<length s + 1]"

definition re_findall ::
  "regex \<Rightarrow> ustring \<Rightarrow> (ustring \<times> ustring \<times> ustring \<times> ustring) list" where
  "re_findall r s = map snd (findall_at r s)"

text \<open>The three patterns of the source.\<close>

definition digit :: "(nat \<times> nat) list" where
  "digit = [(48, 57)]"

definition hexdigit :: "(nat \<times> nat) list" where
  "hexdigit = [(65, 70), (97, 102), (48, 57)]"

definition eul :: "(nat \<times> nat) list" where
  "eul = [(101, 101), (117, 117), (108, 108)]"

text \<open>\<open>(?=((^| )#[0-9]+([eul])?($| )))\<close>, line 21.\<close>

definition issue_findall_re :: regex where
  "issue_findall_re =
     Look (Grp 1 (Seq (Grp 2 (Alt Bol (Chr 32)))
            (Seq (Chr 35)
              (Seq (Plus digit)
                (Seq (Opt (Grp 3 (Cls eul)))
                  (Grp 4 (Alt Eol (Chr 32))))))))"

text \<open>\<open>(^| )#[0-9]+(e|u|l)?($| )\<close>, line 179.\<close>

definition issue_search_re :: regex where
  "issue_search_re =
     Seq (Grp 1 (Alt Bol (Chr 32)))
       (Seq (Chr 35)
         (Seq (Plus digit)
           (Seq (Opt (Grp 2 (Alt (Chr 101) (Alt (Chr 117) (Chr 108)))))
             (Grp 3 (Alt Eol (Chr 32))))))"

text \<open>\<open>^#([A-Fa-f0-9]{6})$\<close>, line 172.\<close>

definition color_re :: regex where
  "color_re = Seq Bol (Seq (Chr 35) (Seq (Grp 1 (Rep 6 (Cls hexdigit))) Eol))"

section \<open>Issue references (\<open>get_github_issues\<close>)\<close>

text \<open>\<open>s.strip(chars)\<close> and \<open>s.lstrip(chars)\<close>.\<close>

definition lstrip :: "ustring \<Rightarrow> ustring \<Rightarrow> ustring" where
  "lstrip chars s = dropWhile (\<lambda>c. c \<in> set chars) s"

definition strip :: "ustring \<Rightarrow> ustring \<Rightarrow> ustring" where
  "strip chars s = rev (dropWhile (\<lambda>c. c \<in> set chars) (rev (lstrip chars s)))"

text \<open>An element \<open>i\<close> of \<open>matches\<close>: the tuple of the four groups; \<open>i[0]\<close> is its first.\<close>

type_synonym groups = "ustring \<times> ustring \<times> ustring \<times> ustring"

text \<open>Lines 25 to 27: the issue number.\<close>

definition issue_number :: "groups \<Rightarrow> ustring" where
  "issue_number i = strip (lit ''#l '') (strip (lit ''#u '') (strip (lit ''#e '') (fst i)))"

text \<open>Lines 29 to 36: the repository.\<close>

definition repo :: "groups \<Rightarrow> ustring" where
  "repo i =
     (if 101 \<in> set (fst i) then lit ''numworks/epsilon''
      else if 117 \<in> set (fst i) then lit ''UpsilonNumworks/Upsilon''
      else if 108 \<in> set (fst i) then lit ''Lambda-Numworks/Lambda''
      else lit ''omega-numworks/omega'')"

definition issue_url :: "groups \<Rightarrow> ustring" where
  "issue_url i = lit ''https://api.github.com/repos/'' @ repo i @ lit ''/issues/'' @ issue_number i"

text \<open>The notice of lines 42 to 44 and 137 to 139; 234 is the code point of e circumflex.\<close>

definition error_notice :: "int \<Rightarrow> ustring" where
  "error_notice status =
     lit ''Erreur lors de la requ'' @ [234] @ lit ''te ('' @ str_int status @ lit '')''"

text \<open>The number that a string of decimal digits denotes.\<close>

definition decimal_value :: "ustring \<Rightarrow> nat" where
  "decimal_value ds = foldl (\<lambda>a c. 10 * a + (c - 48)) 0 ds"

text \<open>
  What the asynchronous generator does when it is iterated to its end: the actions it
  performs and the records it yields, in order. \<open>session_get k url\<close> is the answer to
  the request number \<open>k\<close> of the session (counted from 0), sent to \<open>url\<close>: the status
  and the JSON body. A status other than 200 sends the notice and returns, which ends
  the iteration.
\<close>

datatype gen_event = Performed action | Yielded issue

fun issues_loop :: "(nat \<Rightarrow> ustring \<Rightarrow> int \<times> issue) \<Rightarrow> nat \<Rightarrow> groups list \<Rightarrow> gen_event list" where
  "issues_loop session_get k [] = []"
| "issues_loop session_get k (i # rest) =
     Performed (HttpGet (issue_url i)) #
       (if fst (session_get k (issue_url i)) \<noteq> 200 then
          [Performed (Send (error_notice (fst (session_get k (issue_url i)))))]
        else
          Yielded (snd (session_get k (issue_url i))) # issues_loop session_get (Suc k) rest)"

definition get_github_issues :: "(nat \<Rightarrow> ustring \<Rightarrow> int \<times> issue) \<Rightarrow> ustring \<Rightarrow> gen_event list" where
  "get_github_issues session_get content =
     issues_loop session_get 0 (re_findall issue_findall_re content)"

fun lookups :: "gen_event list \<Rightarrow> ustring list" where
  "lookups [] = []"
| "lookups (Performed (HttpGet url) # evs) = url # lookups evs"
| "lookups (ev # evs) = lookups evs"

fun notices :: "gen_event list \<Rightarrow> ustring list" where
  "notices [] = []"
| "notices (Performed (Send t) # evs) = t # notices evs"
| "notices (ev # evs) = notices evs"

fun yields :: "gen_event list \<Rightarrow> issue list" where
  "yields [] = []"
| "yields (Yielded d # evs) = d # yields evs"
| "yields (ev # evs) = yields evs"

text \<open>
  The references of a message, in the order of the matches: the issue number and the
  repository of each; \<open>references_at\<close> adds the position of the \<open>#\<close> of each token (the
  position of the match plus the length of the second group).
\<close>

definition references_at :: "ustring \<Rightarrow> (nat \<times> ustring \<times> ustring) list" where
  "references_at content =
     map (\<lambda>(p, i). (p + length (fst (snd i)), issue_number i, repo i))
       (findall_at issue_findall_re content)"

definition references :: "ustring \<Rightarrow> (ustring \<times> ustring) list" where
  "references content = map (\<lambda>i. (issue_number i, repo i)) (re_findall issue_findall_re content)"

subsection \<open>The reference tokens as the specification words them\<close>

text \<open>
  Section 4.1 of the specification: a \<open>#\<close> immediately followed by one or more decimal
  digits, optionally followed by one of the letters e, u, l, the whole token bounded by
  the start of the string or a boundary character on the left and by the end of the
  string or a boundary character on the right. \<open>reference_token B s h ds sfx\<close> says that
  such a token, with digits \<open>ds\<close> and optional letter \<open>sfx\<close>, stands at position \<open>h\<close>
  of \<open>s\<close>, for the boundary characters \<open>B\<close>. Section 4.2 gives the repository selected
  by the letter.
\<close>

definition whitespace :: "nat \<Rightarrow> bool" where
  "whitespace c \<longleftrightarrow> c \<in> {9, 10, 11, 12, 13, 32}"

definition space :: "nat \<Rightarrow> bool" where
  "space c \<longleftrightarrow> c = 32"

definition reference_token :: "(nat \<Rightarrow> bool) \<Rightarrow> ustring \<Rightarrow> nat \<Rightarrow> ustring \<Rightarrow> ustring \<Rightarrow> bool" where
  "reference_token B s h ds sfx \<longleftrightarrow>
     ds \<noteq> [] \<and> list_all (in_class digit) ds
     \<and> sfx \<in> {[], lit ''e'', lit ''u'', lit ''l''}
     \<and> take (length (35 # ds @ sfx)) (drop h s) = 35 # ds @ sfx
     \<and> (h = 0 \<or> B (s ! (h - 1)))
     \<and> (h + length (35 # ds @ sfx) = length s \<or> B (s ! (h + length (35 # ds @ sfx))))"

definition selected_repo :: "ustring \<Rightarrow> ustring" where
  "selected_repo sfx =
     (if sfx = lit ''e'' then lit ''numworks/epsilon''
      else if sfx = lit ''u'' then lit ''UpsilonNumworks/Upsilon''
      else if sfx = lit ''l'' then lit ''Lambda-Numworks/Lambda''
      else lit ''omega-numworks/omega'')"

definition ends_with_newline :: "ustring \<Rightarrow> bool" where
  "ends_with_newline s \<longleftrightarrow> s \<noteq> [] \<and> last s = 10"

definition example_session :: "nat \<Rightarrow> ustring \<Rightarrow> int \<times> issue" where
  "example_session k url = (if k = 1 then 404 else 200, example_issue)"

text \<open>
  Lines 179 and 180 of \<open>on_message\<close>: the generator is iterated only when the search
  for a reference succeeds.
\<close>

definition on_message_issues :: "(nat \<Rightarrow> ustring \<Rightarrow> int \<times> issue) \<Rightarrow> ustring \<Rightarrow> gen_event list" where
  "on_message_issues session_get content =
     (if re_search issue_search_re content \<noteq> None then get_github_issues session_get content
      else [])"

subsection \<open>A closed form of the match of the reference pattern\<close>

text \<open>
  Auxiliary functions for the analysis of \<open>issue_findall_re\<close>. For a \<open>#\<close> at position
  \<open>h\<close>: \<open>letter_end\<close> is the position after the digits and the optional letter,
  \<open>token_here\<close> says that digits follow and that the right boundary matches there, and
  \<open>match_end\<close> is where the first group ends. \<open>token_start s p\<close> is the position of the
  \<open>#\<close> of the match that starts at position \<open>p\<close>.
\<close>

definition letter_end :: "ustring \<Rightarrow> nat \<Rightarrow> nat" where
  "letter_end s h =
     (let e = h + 1 + span digit s (h + 1)
      in if e < length s \<and> in_class eul (s ! e) then e + 1 else e)"

definition token_here :: "ustring \<Rightarrow> nat \<Rightarrow> bool" where
  "token_here s h \<longleftrightarrow>
     h < length s \<and> s ! h = 35 \<and> span digit s (h + 1) \<noteq> 0
     \<and> (at_end s (letter_end s h) \<or> (letter_end s h < length s \<and> s ! letter_end s h = 32))"

definition match_end :: "ustring \<Rightarrow> nat \<Rightarrow> nat" where
  "match_end s h = (if at_end s (letter_end s h) then letter_end s h else letter_end s h + 1)"

definition token_start :: "ustring \<Rightarrow> nat \<Rightarrow> nat option" where
  "token_start s p =
     (if p = 0 \<and> token_here s 0 then Some 0
      else if p < length s \<and> s ! p = 32 \<and> token_here s (p + 1) then Some (p + 1)
      else None)"

text \<open>The captured spans of that match, and the digits and the letter of the token.\<close>

definition caps :: "ustring \<Rightarrow> nat \<Rightarrow> nat \<Rightarrow> captures" where
  "caps s p h =
     ((if letter_end s h = h + 1 + span digit s (h + 1) then [2 \<mapsto> (p, h)]
       else [2 \<mapsto> (p, h), 3 \<mapsto> (h + 1 + span digit s (h + 1), letter_end s h)])
      (4 \<mapsto> (letter_end s h, match_end s h)))(1 \<mapsto> (p, match_end s h))"

definition digits_of :: "ustring \<Rightarrow> nat \<Rightarrow> ustring" where
  "digits_of s h = take (span digit s (h + 1)) (drop (h + 1) s)"

definition letter_of :: "ustring \<Rightarrow> nat \<Rightarrow> ustring" where
  "letter_of s h =
     take (letter_end s h - (h + 1 + span digit s (h + 1))) (drop (h + 1 + span digit s (h + 1)) s)"

section \<open>Colour tokens (\<open>make_color_embed\<close> and the start of \<open>on_message\<close>)\<close>

text \<open>
  The JSON answer of the colour service, with the keys the function reads: the name and,
  for each of \<open>rgb\<close>, \<open>hsl\<close> and \<open>hsv\<close>, an object from component letters to values.
  \<open>', '.join\<close> raises TypeError on a value that is not a string.
\<close>

datatype json = JStr ustring | JInt int

record color_json =
  color_name_value :: ustring
  color_rgb :: "nat \<rightharpoonup> json"
  color_hsl :: "nat \<rightharpoonup> json"
  color_hsv :: "nat \<rightharpoonup> json"

text \<open>\<open>[obj[letter] for letter in letters]\<close>: KeyError on a missing letter.\<close>

fun lookup_letters :: "(nat \<rightharpoonup> json) \<Rightarrow> ustring \<Rightarrow> error + json list" where
  "lookup_letters obj [] = Inr []"
| "lookup_letters obj (letter # letters) =
     (case obj letter of
        None \<Rightarrow> Inl KeyError
      | Some v \<Rightarrow> (case lookup_letters obj letters of
                    Inl e \<Rightarrow> Inl e
                  | Inr vs \<Rightarrow> Inr (v # vs)))"

fun strings_of :: "json list \<Rightarrow> error + ustring list" where
  "strings_of [] = Inr []"
| "strings_of (JStr t # vs) =
     (case strings_of vs of Inl e \<Rightarrow> Inl e | Inr ts \<Rightarrow> Inr (t # ts))"
| "strings_of (JInt i # vs) = Inl TypeError"

text \<open>\<open>str.capitalize\<close> on ASCII letters: the first in upper case, the others in lower case.\<close>

definition upper :: "nat \<Rightarrow> nat" where
  "upper c = (if 97 \<le> c \<and> c \<le> 122 then c - 32 else c)"

definition lower :: "nat \<Rightarrow> nat" where
  "lower c = (if 65 \<le> c \<and> c \<le> 90 then c + 32 else c)"

definition capitalize :: "ustring \<Rightarrow> ustring" where
  "capitalize s = (case s of [] \<Rightarrow> [] | c # cs \<Rightarrow> upper c # map lower cs)"

text \<open>One line of the description, lines 145 to 148, for the family named \<open>color_format\<close>.\<close>

definition color_line :: "ustring \<Rightarrow> (nat \<rightharpoonup> json) \<Rightarrow> error + ustring" where
  "color_line color_format obj =
     (case lookup_letters obj color_format of
        Inl e \<Rightarrow> Inl e
      | Inr vs \<Rightarrow>
          (case strings_of vs of
             Inl e \<Rightarrow> Inl e
           | Inr ts \<Rightarrow> Inr (lit ''**'' @ capitalize color_format @ lit '':**'' @ join (lit '', '') ts)))"

text \<open>
  \<open>int(hex_code, base=16)\<close> on the strings that can reach it: surrounding whitespace is
  dropped, and what remains must be one or more hexadecimal digits (ValueError
  otherwise). Signs, an \<open>0x\<close> prefix and underscores, which \<open>int\<close> also accepts, cannot
  occur behind the guard of line 172.
\<close>

definition hex_value :: "nat \<Rightarrow> nat" where
  "hex_value c = (if c \<le> 57 then c - 48 else if c \<le> 70 then c - 55 else c - 87)"

definition int_base16 :: "ustring \<Rightarrow> error + nat" where
  "int_base16 s =
     (let t = strip [9, 10, 11, 12, 13, 32] s
      in if t \<noteq> [] \<and> list_all (in_class hexdigit) t
         then Inr (foldl (\<lambda>a c. 16 * a + hex_value c) 0 t)
         else Inl ValueError)"

text \<open>
  \<open>make_color_embed\<close>: the actions performed and the value returned, which is \<open>None\<close>
  when the status is not 200. \<open>color_get url\<close> is the answer of the colour service.
\<close>

definition make_color_embed ::
  "(ustring \<Rightarrow> int \<times> color_json) \<Rightarrow> ustring \<Rightarrow> action list \<times> (error + embed option)" where
  "make_color_embed color_get hex_code =
     (let url = lit ''https://www.thecolorapi.com/id?hex='' @ hex_code;
          status = fst (color_get url);
          data = snd (color_get url)
      in if status = 200 then
           ([HttpGet url],
            (case color_line (lit ''rgb'') (color_rgb data) of
               Inl e \<Rightarrow> Inl e
             | Inr rgb \<Rightarrow>
            (case color_line (lit ''hsl'') (color_hsl data) of
               Inl e \<Rightarrow> Inl e
             | Inr hsl \<Rightarrow>
            (case color_line (lit ''hsv'') (color_hsv data) of
               Inl e \<Rightarrow> Inl e
             | Inr hsv \<Rightarrow>
            (case int_base16 hex_code of
               Inl e \<Rightarrow> Inl e
             | Inr color \<Rightarrow>
                 Inr (Some \<lparr> embed_title = color_name_value data @ lit '' color'',
                             embed_url = None,
                             embed_description =
                               lit ''**Hex:** #'' @ hex_code @ nl @ join nl [rgb, hsl, hsv],
                             embed_color = Some color,
                             embed_author = None,
                             embed_fields = [] \<rparr>))))))
         else ([HttpGet url, Send (error_notice status)], Inr None))"

text \<open>
  Lines 172 to 176 of \<open>on_message\<close>: when the content is a colour token, the result of
  \<open>make_color_embed\<close> is passed to \<open>message.channel.send(embed=...)\<close> as it is.
  The decorator \<open>user_only\<close> of \<open>src.utils\<close> decides which messages reach the handler;
  the model is that of the handler's body.
\<close>

definition on_message_color ::
  "(ustring \<Rightarrow> int \<times> color_json) \<Rightarrow> ustring \<Rightarrow> action list \<times> (error + unit)" where
  "on_message_color color_get content =
     (if re_match color_re content \<noteq> None then
        (let hex_code = lstrip (lit ''#'') content
         in case make_color_embed color_get hex_code of
              (acts, Inl e) \<Rightarrow> (acts, Inl e)
            | (acts, Inr color_embed) \<Rightarrow> (acts @ [SendEmbed color_embed], Inr ()))
      else ([], Inr ()))"

definition example_color :: color_json where
  "example_color =
     \<lparr> color_name_value = lit ''Tallow'',
       color_rgb = [114 \<mapsto> JStr (lit ''161''), 103 \<mapsto> JStr (lit ''178''), 98 \<mapsto> JStr (lit ''195'')],
       color_hsl = [104 \<mapsto> JStr (lit ''210''), 115 \<mapsto> JStr (lit ''22%''), 108 \<mapsto> JStr (lit ''70%'')],
       color_hsv = [104 \<mapsto> JStr (lit ''210''), 115 \<mapsto> JStr (lit ''17%''), 118 \<mapsto> JStr (lit ''76%'')] \<rparr>"

definition color_service_down :: "ustring \<Rightarrow> int \<times> color_json" where
  "color_service_down url = (500, example_color)"

definition color_service_up :: "ustring \<Rightarrow> int \<times> color_json" where
  "color_service_up url = (200, example_color)"

section \<open>Properties of the Commits truncation\<close>

lemma length_join_nl: "xs \<noteq> [] \<Longrightarrow> length (join nl xs) + 1 = removable xs"
  by (induction nl xs rule: join.induct) (simp_all add: removable_def nl_def)

lemma removable_pop:
  "i < length xs \<Longrightarrow>
   removable (take i xs @ drop (Suc i) xs) + (length (xs ! i) + 1) = removable xs"
proof -
  assume "i < length xs"
  then have "xs = take i xs @ xs ! i # drop (Suc i) xs" by (rule id_take_nth_drop)
  then have "removable xs = removable (take i xs @ xs ! i # drop (Suc i) xs)" by simp
  then show ?thesis by (simp add: removable_def)
qed

lemma removable_pos: "0 < removable xs \<Longrightarrow> xs \<noteq> []"
  by (auto simp: removable_def)

lemma truncate_step_ok:
  "0 < diff \<Longrightarrow> diff < int (removable formatted) \<Longrightarrow>
   \<exists>f' d'. truncate_step formatted diff = Inr (f', d') \<and> d' < int (removable f')
      \<and> d' \<le> diff - 1 \<and> Suc (length f') = length formatted
      \<and> int (removable f') - d' = int (removable formatted) - diff"
proof -
  assume a: "0 < diff" "diff < int (removable formatted)"
  then have ne: "formatted \<noteq> []" using removable_pos[of formatted] by auto
  then have lt: "length formatted div 2 < length formatted" by simp
  from removable_pop[OF lt] a show ?thesis
    using lt by (simp add: truncate_step_def pop_def)
qed

lemma truncate_loop_ok:
  "diff < int (removable formatted) \<Longrightarrow>
   \<exists>f' d'. truncate_loop formatted diff = Inr (f', d') \<and> d' \<le> 0
     \<and> d' < int (removable f') \<and> length f' \<le> length formatted
     \<and> int (removable f') - d' = int (removable formatted) - diff"
proof (induction formatted diff rule: truncate_loop.induct)
  case (1 formatted diff)
  show ?case
  proof (cases "0 < diff")
    case False
    then show ?thesis using "1.prems" by (simp add: truncate_loop.simps)
  next
    case True
    from truncate_step_ok[OF True "1.prems"] obtain f' d' where
      s: "truncate_step formatted diff = Inr (f', d')" "d' < int (removable f')"
         "Suc (length f') = length formatted"
         "int (removable f') - d' = int (removable formatted) - diff" by blast
    from "1.IH"[OF True s(1) refl s(2)] s(3) s(4) True s(1) show ?thesis
      by (subst truncate_loop.simps) auto
  qed
qed

lemma truncate_loop_spec:
  "diff < int (removable formatted) \<Longrightarrow>
   \<exists>d'. truncate_loop formatted diff = Inr (spec_remove formatted diff, d')"
proof (induction formatted diff rule: truncate_loop.induct)
  case (1 formatted diff)
  show ?case
  proof (cases "0 < diff")
    case False
    then show ?thesis by (simp add: truncate_loop.simps spec_remove.simps)
  next
    case True
    from truncate_step_ok[OF True "1.prems"] obtain f' d' where
      s: "truncate_step formatted diff = Inr (f', d')" "d' < int (removable f')" by blast
    from s(1) have eq: "f' = take (length formatted div 2) formatted
                              @ drop (Suc (length formatted div 2)) formatted"
      "d' = diff - (int (length (formatted ! (length formatted div 2))) + 1)"
      "length formatted div 2 < length formatted"
      by (auto simp: truncate_step_def pop_def split: if_splits)
    from "1.IH"[OF True s(1) refl s(2)] obtain d'' where
      "truncate_loop f' d' = Inr (spec_remove f' d', d'')" by blast
    then show ?thesis using True s(1) eq
      by (subst truncate_loop.simps, subst spec_remove.simps) (simp add: Let_def)
  qed
qed

lemma excess_lt_removable:
  "1024 < length (join nl formatted) \<Longrightarrow>
   int (length (join nl formatted)) - 1024 + 4 < int (removable formatted)"
proof -
  assume a: "1024 < length (join nl formatted)"
  then have "formatted \<noteq> []" by auto
  from length_join_nl[OF this] show ?thesis by linarith
qed

lemma commits_value_spec:
  "1024 < length (join nl formatted) \<Longrightarrow>
   commits_value formatted = Inr (spec_commits_value formatted)"
proof -
  assume a: "1024 < length (join nl formatted)"
  from truncate_loop_spec[OF excess_lt_removable[OF a]] obtain d' where
    "truncate_loop formatted (int (length (join nl formatted)) - 1024 + 4)
       = Inr (spec_remove formatted (int (length (join nl formatted)) - 1024 + 4), d')"
    by blast
  then show ?thesis using a
    by (simp add: commits_value_def spec_commits_value_def Let_def insert_at_def)
qed

text \<open>
  Claim C1. Whenever the newline-joined commit lines exceed 1024 characters, the value
  computed for the Commits field is the output of the reference algorithm of the
  specification: the computation never fails and gives that exact string, and this
  string is the value of the Commits field, the first field, of the embed that
  \<open>make_embed\<close> returns for an issue with a pull request.
\<close>

theorem commits_value_refines_spec:
  assumes "1024 < length (join nl formatted)"
  shows "commits_value formatted = Inr (spec_commits_value formatted)
       \<and> (\<forall>null_text strptime_strftime commits_get data url e.
             issue_pull_request data = Some url
             \<and> map format_commit (commits_get (url @ lit ''/commits'')) = formatted
             \<and> make_embed null_text strptime_strftime commits_get data = Inr e
             \<longrightarrow> hd (embed_fields e) = (lit ''Commits'', spec_commits_value formatted))"
proof -
  note c = commits_value_spec[OF assms]
  have "hd (embed_fields e) = (lit ''Commits'', spec_commits_value formatted)"
    if "issue_pull_request data = Some url"
      "map format_commit (commits_get (url @ lit ''/commits'')) = formatted"
      "make_embed null_text strptime_strftime commits_get data = Inr e"
    for null_text strptime_strftime commits_get data url e
    using that c by (auto simp: make_embed_def Let_def split: sum.splits)
  with c show ?thesis by blast
qed

theorem commits_value_refines_spec_witness:
  "1024 < length (join nl (map format_commit (example_commits [])))
   \<and> commits_value (map format_commit (example_commits []))
       = Inr (spec_commits_value (map format_commit (example_commits [])))
   \<and> spec_commits_value (map format_commit (example_commits []))
       = format_commit (example_commit 97) @ nl @ lit ''...''
   \<and> issue_pull_request (example_issue\<lparr>issue_pull_request := Some (lit ''https://api.github.com/repos/o/r/pulls/2'')\<rparr>)
       = Some (lit ''https://api.github.com/repos/o/r/pulls/2'')
   \<and> make_embed None Map.empty example_commits
        (example_issue\<lparr>issue_pull_request := Some (lit ''https://api.github.com/repos/o/r/pulls/2'')\<rparr>)
       = Inr \<lparr> embed_title = lit ''Crash'',
             embed_url = Some (lit ''https://github.com/omega-numworks/omega/issues/1''),
             embed_description = lit ''It crashes.'',
             embed_color = None,
             embed_author = Some example_user,
             embed_fields =
               [(lit ''Commits'', format_commit (example_commit 97) @ nl @ lit ''...''),
                (lit ''Additional informations'',
                 lit '':arrows_clockwise: Pull request'' @ nl @ lit '':white_check_mark: Open'')] \<rparr>"
  using commits_value_refines_spec [of "map format_commit (example_commits [])"]
  by (simp add: make_embed_def example_issue_def state_infos_def label_infos_def lit_def
        describe_def embed_description_init_def
        truncate_description_def nl_def commits_value_def example_commits_def
        example_commit_def format_commit_def truncate_loop.simps truncate_step_def pop_def
        insert_at_def spec_commits_value_def spec_remove.simps)

text \<open>
  Claim C10. For commit lines whose joined length exceeds 1024 (such a list is not
  empty), the truncation loop returns: it ends with \<open>diff \<le> 0\<close> and never pops from an
  empty list (the only way it can fail). The removable total exceeds the initial excess,
  every iteration lowers \<open>diff\<close> by at least one and removes exactly one line, so the
  loop makes at most as many iterations as there are lines.
\<close>

theorem truncate_loop_terminates:
  assumes "1024 < length (join nl formatted)"
  shows "formatted \<noteq> []
       \<and> (\<exists>f' d'. truncate_loop formatted (int (length (join nl formatted)) - 1024 + 4)
                     = Inr (f', d') \<and> d' \<le> 0 \<and> length f' \<le> length formatted)
       \<and> int (length (join nl formatted)) - 1024 + 4 < int (removable formatted)
       \<and> (\<forall>f d f' d'. truncate_step f d = Inr (f', d')
             \<longrightarrow> d' \<le> d - 1 \<and> Suc (length f') = length f)"
proof -
  from assms have 0: "formatted \<noteq> []" by auto
  from truncate_loop_ok[OF excess_lt_removable[OF assms]]
  have 1: "\<exists>f' d'. truncate_loop formatted (int (length (join nl formatted)) - 1024 + 4)
                     = Inr (f', d') \<and> d' \<le> 0 \<and> length f' \<le> length formatted" by blast
  have 3: "\<forall>f d f' d'. truncate_step f d = Inr (f', d')
             \<longrightarrow> d' \<le> d - 1 \<and> Suc (length f') = length f"
    by (auto simp: truncate_step_def pop_def split: if_splits)
  from 0 1 excess_lt_removable[OF assms] 3 show ?thesis by blast
qed

theorem truncate_loop_terminates_witness:
  "1024 < length (join nl [replicate 600 97, replicate 600 98, [99]]) \<and>
   truncate_loop [replicate 600 97, replicate 600 98, [99]] 183
     = Inr ([replicate 600 97, [99]], - 418) \<and>
   (183::int) < int (removable [replicate 600 97, replicate 600 98, [99]]) \<and>
   truncate_step [replicate 600 97, replicate 600 98, [99]] 183
     = Inr ([replicate 600 97, [99]], - 418)"
  using truncate_loop_terminates [of "[replicate 600 97, replicate 600 98, [99]]"]
  by (simp add: nl_def truncate_loop.simps truncate_step_def pop_def removable_def)

section \<open>Properties of the embed fields and the description\<close>

lemma removable_append: "removable (xs @ ys) = removable xs + removable ys"
  by (simp add: removable_def)

lemma removable_insert_at: "removable (insert_at xs i x) = removable xs + (length x + 1)"
proof -
  have "removable xs = removable (take i xs @ drop i xs)" by simp
  then show ?thesis
    unfolding insert_at_def removable_append by (simp add: removable_def)
qed

lemma commits_value_bound: "\<exists>v. commits_value formatted = Inr v \<and> length v \<le> 1024"
proof (cases "1024 < length (join nl formatted)")
  case False
  then show ?thesis by (simp add: commits_value_def)
next
  case True
  then have ne: "formatted \<noteq> []" by auto
  let ?excess = "int (length (join nl formatted)) - 1024 + 4"
  from truncate_loop_ok[OF excess_lt_removable[OF True]] obtain f' d' where
    l: "truncate_loop formatted ?excess = Inr (f', d')" "d' \<le> 0"
       "int (removable f') - d' = int (removable formatted) - ?excess" by blast
  let ?ys = "insert_at f' (length f' div 2 + 1) (lit ''...'')"
  have ys: "?ys \<noteq> []" by (simp add: insert_at_def)
  have "removable ?ys = removable f' + 4"
    by (simp add: removable_insert_at lit_def)
  with l(2,3) length_join_nl[OF ne] have "removable ?ys \<le> 1025" by linarith
  with length_join_nl[OF ys] have "length (join nl ?ys) \<le> 1024" by linarith
  then show ?thesis using True l(1) by (simp add: commits_value_def)
qed

lemma length_join:
  "length (join sep xs) = sum_list (map length xs) + (length xs - 1) * length sep"
  by (induction sep xs rule: join.induct) simp_all

text \<open>
  Claim C3 does not hold of the code: only the Commits value is truncated. An open issue
  with 25 labels of 50 characters each gets an Additional informations field of 1364
  characters, above the limit of 1024.
\<close>

theorem additional_informations_over_limit:
  "map_sum id field_lengths (make_embed null_text Map.empty example_commits labelled_issue)
     = Inr [(lit ''Additional informations'', 1364)]"
  by (simp add: make_embed_def labelled_issue_def example_issue_def state_infos_def
        label_infos_def field_lengths_def length_join nl_def describe_def
        embed_description_init_def)
     (simp add: lit_def sum_list_replicate)

text \<open>
  The Commits field that \<open>make_embed\<close> adds never exceeds 1024 characters: its value is
  always computed without failure from the formatted lines, and any field named Commits
  of a returned embed is within the limit.
\<close>

lemma commits_field_bounded:
  "(\<exists>v. commits_value formatted = Inr v \<and> length v \<le> 1024) \<and>
   (\<forall>e n v. make_embed null_text strptime_strftime commits_get data = Inr e
        \<longrightarrow> (n, v) \<in> set (embed_fields e) \<longrightarrow> n = lit ''Commits''
        \<longrightarrow> length v \<le> 1024)"
proof -
  have "length v \<le> 1024"
    if m: "make_embed null_text strptime_strftime commits_get data = Inr e"
    and f: "(n, v) \<in> set (embed_fields e)" and n: "n = lit ''Commits''" for e n v
  proof (cases "issue_pull_request data")
    case None
    with m f n show ?thesis
      by (auto simp: make_embed_def Let_def lit_def split: sum.splits)
  next
    case (Some url)
    from commits_value_bound obtain r where
      r: "commits_value (map format_commit (commits_get (url @ lit ''/commits''))) = Inr r"
         "length r \<le> 1024" by blast
    with Some m f n show ?thesis
      by (auto simp: make_embed_def Let_def lit_def split: sum.splits)
  qed
  with commits_value_bound show ?thesis by blast
qed

text \<open>
  For an issue whose body is a string, the description is the body when the body has at
  most 2048 characters, and otherwise its first 2043 characters followed by \<open>[...]\<close>,
  2048 characters in all. The description of an embed that \<open>make_embed\<close> returns never
  exceeds 2048 characters.
\<close>

lemma description_truncation:
  "truncate_description body =
     (if length body \<le> 2048 then body else take 2043 body @ lit ''[...]'')
   \<and> (2048 < length body \<longrightarrow> length (truncate_description body) = 2048)
   \<and> length (truncate_description body) \<le> 2048
   \<and> (\<forall>e text. issue_body data = Some text
         \<longrightarrow> make_embed null_text strptime_strftime commits_get data = Inr e
         \<longrightarrow> embed_description e = truncate_description text)
   \<and> (\<forall>e. make_embed null_text strptime_strftime commits_get data = Inr e
         \<longrightarrow> length (embed_description e) \<le> 2048)"
  by (auto simp: truncate_description_def lit_def make_embed_def describe_def
        embed_description_init_def Let_def split: sum.splits option.splits)

lemma description_truncation_example:
  "truncate_description (replicate 3000 97) = replicate 2043 97 @ lit ''[...]''
   \<and> length (truncate_description (replicate 3000 97)) = 2048
   \<and> make_embed null_text Map.empty example_commits
        (example_issue\<lparr>issue_body := Some (replicate 3000 97)\<rparr>)
       = Inr \<lparr> embed_title = lit ''Crash'',
               embed_url = Some (lit ''https://github.com/omega-numworks/omega/issues/1''),
               embed_description = replicate 2043 97 @ lit ''[...]'',
               embed_color = None,
               embed_author = Some example_user,
               embed_fields = [(lit ''Additional informations'', lit '':white_check_mark: Open'')] \<rparr>"
  by (simp add: make_embed_def example_issue_def state_infos_def label_infos_def lit_def
        describe_def embed_description_init_def truncate_description_def)

text \<open>
  Claim C4 does not hold of the code for an issue without text, whose body is \<open>null\<close>:
  no description equal to the body results. When the embed keeps no string for such a
  body, \<open>len\<close> raises TypeError and no embed is made; when it keeps the text of
  \<open>str(None)\<close>, that text becomes the description.
\<close>

theorem null_body_not_described:
  "make_embed None Map.empty example_commits bodyless_issue = Inl TypeError
   \<and> map_sum id embed_description
        (make_embed (Some (lit ''None'')) Map.empty example_commits bodyless_issue)
       = Inr (lit ''None'')"
  by (simp add: make_embed_def bodyless_issue_def example_issue_def state_infos_def
        label_infos_def describe_def embed_description_init_def truncate_description_def
        lit_def)

section \<open>Properties of the dismissible embeds\<close>

lemma deletions_append [simp]: "deletions m (xs @ ys) = deletions m xs + deletions m ys"
  by (simp add: deletions_def)

lemma step_deletions:
  "deletions m (trace (step w ev)) + (if issue_embeds (step w ev) m = None then 0 else 1)
     \<le> deletions m (trace w) + (if issue_embeds w m = None then 0 else 1)
        + registrations m [ev]"
proof (cases ev)
  case (Posted e i)
  then show ?thesis by (simp add: post_issue_embed_def deletions_def)
next
  case (Reacted r)
  then show ?thesis
    by (auto simp: on_raw_reaction_add_def deletions_def split: option.splits)
next
  case (TimedOut i)
  then show ?thesis
    by (auto simp: timeout_cleanup_def deletions_def split: option.splits)
qed

lemma registrations_Cons: "registrations m (ev # evs) = registrations m [ev] + registrations m evs"
  by (cases ev) simp_all

lemma run_deletions:
  "deletions m (trace (run w evs)) + (if issue_embeds (run w evs) m = None then 0 else 1)
     \<le> deletions m (trace w) + (if issue_embeds w m = None then 0 else 1)
        + registrations m evs"
proof (induction evs arbitrary: w)
  case Nil
  show ?case by simp
next
  case (Cons ev evs)
  have "deletions m (trace (run (step w ev) evs))
          + (if issue_embeds (run (step w ev) evs) m = None then 0 else 1)
        \<le> deletions m (trace (step w ev)) + (if issue_embeds (step w ev) m = None then 0 else 1)
           + registrations m evs" by (rule Cons.IH)
  also have "\<dots> \<le> deletions m (trace w) + (if issue_embeds w m = None then 0 else 1)
        + registrations m [ev] + registrations m evs"
    using step_deletions[of m w ev] by linarith
  finally show ?case by (simp add: registrations_Cons[of m ev evs])
qed

text \<open>
  Claim C6. A first dismiss reaction (trash emoji, user not a bot) on a message with a
  live entry removes the entry and deletes the message; any later reaction on the same
  message id finds no entry and does nothing but fetch the user. The cleanup after the
  sleep never deletes a message. Hence in every interleaving of postings, reactions and
  timeouts the deletions of a message id are at most its registrations: a message id that
  is registered once is deleted at most once.
\<close>

theorem at_most_one_deletion:
  "(\<not> reaction_user_is_bot r \<and> reaction_emoji_name r = trash
      \<and> reg (reaction_message_id r) = Some v \<and> v \<noteq> 0 \<longrightarrow>
      on_raw_reaction_add reg r =
        (reg(reaction_message_id r := None),
         [FetchUser (reaction_user_id r),
          FetchMessage (reaction_channel_id r) (reaction_message_id r),
          DeleteMessage (reaction_message_id r)])
      \<and> (\<forall>r'. reaction_message_id r' = reaction_message_id r \<longrightarrow>
            on_raw_reaction_add (fst (on_raw_reaction_add reg r)) r'
              = (fst (on_raw_reaction_add reg r), [FetchUser (reaction_user_id r')])))
   \<and> (\<forall>m'. DeleteMessage m' \<notin> set (fst (timeout_cleanup reg m)))
   \<and> deletions m (trace (run initial_world evs)) \<le> registrations m evs
   \<and> (registrations m evs \<le> 1 \<longrightarrow> deletions m (trace (run initial_world evs)) \<le> 1)"
proof -
  have a: "deletions m (trace (run initial_world evs)) \<le> registrations m evs"
    using run_deletions[of m initial_world evs]
    by (simp add: initial_world_def deletions_def split: if_splits)
  have b: "\<forall>m'. DeleteMessage m' \<notin> set (fst (timeout_cleanup reg m))"
    by (simp add: timeout_cleanup_def)
  have c: "\<not> reaction_user_is_bot r \<and> reaction_emoji_name r = trash
      \<and> reg (reaction_message_id r) = Some v \<and> v \<noteq> 0 \<longrightarrow>
      on_raw_reaction_add reg r =
        (reg(reaction_message_id r := None),
         [FetchUser (reaction_user_id r),
          FetchMessage (reaction_channel_id r) (reaction_message_id r),
          DeleteMessage (reaction_message_id r)])
      \<and> (\<forall>r'. reaction_message_id r' = reaction_message_id r \<longrightarrow>
            on_raw_reaction_add (fst (on_raw_reaction_add reg r)) r'
              = (fst (on_raw_reaction_add reg r), [FetchUser (reaction_user_id r')]))"
    by (simp add: on_raw_reaction_add_def)
  from a b c show ?thesis by (meson le_trans)
qed

theorem at_most_one_deletion_witness:
  "\<not> reaction_user_is_bot example_reaction \<and> reaction_emoji_name example_reaction = trash
   \<and> [7 \<mapsto> 1::nat] (reaction_message_id example_reaction) = Some 1 \<and> (1::nat) \<noteq> 0
   \<and> on_raw_reaction_add [7 \<mapsto> 1] example_reaction
       = (Map.empty, [FetchUser 42, FetchMessage 3 7, DeleteMessage 7])
   \<and> on_raw_reaction_add Map.empty example_reaction = (Map.empty, [FetchUser 42])
   \<and> registrations 7 [Posted example_embed 7, Reacted example_reaction, Reacted example_reaction] \<le> 1
   \<and> deletions 7 (trace (run initial_world
         [Posted example_embed 7, Reacted example_reaction, Reacted example_reaction])) = 1"
  using at_most_one_deletion [of example_reaction "[7 \<mapsto> 1]" 1 7
          "[Posted example_embed 7, Reacted example_reaction, Reacted example_reaction]"]
  by (simp add: example_reaction_def on_raw_reaction_add_def initial_world_def
        post_issue_embed_def deletions_def)

text \<open>
  Claim C2 does not hold of the code: when the entry has been removed by a dismiss
  reaction during the sleep, the cleanup still asks the platform to remove the reaction
  and then raises KeyError, because \<open>pop\<close> is called without a default.
\<close>

theorem timeout_after_dismissal_raises:
  "failures (run initial_world
      [Posted example_embed 7, Reacted example_reaction, TimedOut 7]) = [KeyError]
   \<and> trace (run initial_world
      [Posted example_embed 7, Reacted example_reaction, TimedOut 7])
     = [SendEmbed (Some example_embed), AddReaction 7 trash,
        FetchUser 42, FetchMessage 3 7, DeleteMessage 7,
        RemoveReaction 7 trash]
   \<and> timeout_cleanup Map.empty 7 = ([RemoveReaction 7 trash], Inl KeyError)"
  by (simp add: example_reaction_def on_raw_reaction_add_def initial_world_def
        post_issue_embed_def timeout_cleanup_def)

section \<open>Properties of the issue lookups\<close>

lemma issues_loop_failure:
  "n < length ms \<Longrightarrow>
   \<forall>j<n. fst (session_get (k + j) (issue_url (ms ! j))) = 200 \<Longrightarrow>
   fst (session_get (k + n) (issue_url (ms ! n))) \<noteq> 200 \<Longrightarrow>
   notices (issues_loop session_get k ms)
     = [error_notice (fst (session_get (k + n) (issue_url (ms ! n))))]
   \<and> lookups (issues_loop session_get k ms) = map issue_url (take (Suc n) ms)
   \<and> yields (issues_loop session_get k ms)
     = map (\<lambda>j. snd (session_get (k + j) (issue_url (ms ! j)))) [0..<n]"
proof (induction ms arbitrary: k n)
  case Nil
  then show ?case by simp
next
  case (Cons i rest)
  show ?case
  proof (cases n)
    case 0
    with Cons.prems show ?thesis by simp
  next
    case (Suc n')
    from Cons.prems Suc have ok: "fst (session_get k (issue_url i)) = 200" by fastforce
    from Cons.prems Suc have 1: "n' < length rest" by simp
    from Cons.prems Suc have 2: "\<forall>j<n'. fst (session_get (Suc k + j) (issue_url (rest ! j))) = 200"
      by fastforce
    from Cons.prems Suc have 3: "fst (session_get (Suc k + n') (issue_url (rest ! n'))) \<noteq> 200"
      by simp
    have u: "[0..<Suc n'] = 0 # map Suc [0..<n']"
      by (simp only: map_Suc_upt upt_conv_Cons[of 0 "Suc n'"] zero_less_Suc)
    from Cons.IH[OF 1 2 3] ok Suc show ?thesis
      by (simp add: u comp_def del: upt_Suc)
  qed
qed

lemma decimal_value_snoc: "decimal_value (ds @ [c]) = 10 * decimal_value ds + (c - 48)"
  by (simp add: decimal_value_def)

lemma str_nat_decimal:
  "str_nat n \<noteq> [] \<and> list_all (in_class digit) (str_nat n) \<and> decimal_value (str_nat n) = n"
proof (induction n rule: str_nat.induct)
  case (1 n)
  show ?case
  proof (cases "n < 10")
    case True
    then show ?thesis
      by (subst (1 2 3) str_nat.simps) (simp add: digit_def decimal_value_def)
  next
    case False
    from "1.IH"[OF False] have ih: "list_all (in_class digit) (str_nat (n div 10))"
      "decimal_value (str_nat (n div 10)) = n div 10" by simp_all
    have m: "n mod 10 < 10" by simp
    from False ih m show ?thesis
      by (subst (1 2 3) str_nat.simps) (simp add: digit_def decimal_value_snoc)
  qed
qed

lemma str_int_decimal:
  "0 \<le> status \<Longrightarrow>
   str_int status \<noteq> [] \<and> list_all (in_class digit) (str_int status)
   \<and> int (decimal_value (str_int status)) = status"
  using str_nat_decimal[of "nat status"] by (simp add: str_int_def)

text \<open>
  Claim C5. Let the lookup for reference number \<open>n\<close> of a message be the first that
  answers with a status other than 200. Then the generator sends exactly one notice; its
  text is \<open>Erreur lors de la requ\<close>, e circumflex, \<open>te (\<close>, the status and \<open>)\<close>, where a
  status that is not negative is written as its decimal digits. It yields the records of
  the references before \<open>n\<close> and nothing for reference \<open>n\<close> (an embed is made only from
  a yielded record); and its lookups are those of the references up to \<open>n\<close>, none for
  the rest of the batch.
\<close>

theorem fetch_failure_aborts_batch:
  assumes "n < length (re_findall issue_findall_re content)"
    and "\<forall>j<n. fst (session_get j (issue_url (re_findall issue_findall_re content ! j))) = 200"
    and "fst (session_get n (issue_url (re_findall issue_findall_re content ! n))) = status"
    and "status \<noteq> 200"
  shows "notices (get_github_issues session_get content) = [error_notice status]
       \<and> error_notice status
           = lit ''Erreur lors de la requ'' @ [234] @ lit ''te ('' @ str_int status @ lit '')''
       \<and> (0 \<le> status \<longrightarrow>
             str_int status \<noteq> [] \<and> list_all (in_class digit) (str_int status)
             \<and> int (decimal_value (str_int status)) = status)
       \<and> lookups (get_github_issues session_get content)
           = map issue_url (take (Suc n) (re_findall issue_findall_re content))
       \<and> yields (get_github_issues session_get content)
           = map (\<lambda>j. snd (session_get j (issue_url (re_findall issue_findall_re content ! j)))) [0..<n]"
proof -
  from assms(3,4)
  have f: "fst (session_get (0 + n) (issue_url (re_findall issue_findall_re content ! n))) \<noteq> 200"
    by simp
  from assms(2)
  have o: "\<forall>j<n. fst (session_get (0 + j) (issue_url (re_findall issue_findall_re content ! j))) = 200"
    by simp
  from issues_loop_failure[OF assms(1) o f] assms(3)
  have "notices (get_github_issues session_get content) = [error_notice status]"
    and "lookups (get_github_issues session_get content)
           = map issue_url (take (Suc n) (re_findall issue_findall_re content))"
    and "yields (get_github_issues session_get content)
           = map (\<lambda>j. snd (session_get j (issue_url (re_findall issue_findall_re content ! j)))) [0..<n]"
    by (simp_all add: get_github_issues_def)
  moreover have "error_notice status
           = lit ''Erreur lors de la requ'' @ [234] @ lit ''te ('' @ str_int status @ lit '')''"
    by (simp add: error_notice_def)
  ultimately show ?thesis using str_int_decimal[of status] by blast
qed

lemma findall_example:
  "re_findall issue_findall_re (lit ''#1 #2e #3'')
     = [(lit ''#1 '', [], [], lit '' ''), (lit '' #2e '', lit '' '', lit ''e'', lit '' ''),
        (lit '' #3'', lit '' '', [], [])]"
  by (simp add: re_findall_def findall_at_def match_at_def issue_findall_re_def lit_def
       List.map_filter_simps digit_def eul_def span_def group_def upt_rec at_end_def)

theorem fetch_failure_aborts_batch_witness:
  "1 < length (re_findall issue_findall_re (lit ''#1 #2e #3''))
   \<and> fst (example_session 0 (issue_url (re_findall issue_findall_re (lit ''#1 #2e #3'') ! 0))) = 200
   \<and> fst (example_session 1 (issue_url (re_findall issue_findall_re (lit ''#1 #2e #3'') ! 1))) = 404
   \<and> (404 :: int) \<noteq> 200 \<and> (0 :: int) \<le> 404
   \<and> notices (get_github_issues example_session (lit ''#1 #2e #3''))
       = [lit ''Erreur lors de la requ'' @ [234] @ lit ''te (404)'']
   \<and> str_int 404 = lit ''404'' \<and> decimal_value (lit ''404'') = 404
   \<and> lookups (get_github_issues example_session (lit ''#1 #2e #3''))
       = [lit ''https://api.github.com/repos/omega-numworks/omega/issues/1'',
          lit ''https://api.github.com/repos/numworks/epsilon/issues/2'']
   \<and> yields (get_github_issues example_session (lit ''#1 #2e #3'')) = [example_issue]"
  using fetch_failure_aborts_batch [of 1 "lit ''#1 #2e #3''" example_session 404]
  by (simp add: findall_example example_session_def)
     (simp add: issue_url_def issue_number_def repo_def strip_def lstrip_def lit_def
        str_int_def str_nat.simps decimal_value_def)

section \<open>Properties of the reference extraction\<close>

lemma span_digit:
  "k < span rs s p \<Longrightarrow> p + k < length s \<and> in_class rs (s ! (p + k))"
proof -
  assume a: "k < span rs s p"
  let ?t = "takeWhile (in_class rs) (drop p s)"
  have l: "length ?t \<le> length (drop p s)" by (rule length_takeWhile_le)
  with a have 1: "p + k < length s" by (simp add: span_def)
  from a have "?t ! k \<in> set ?t" by (simp add: span_def)
  then have "in_class rs (?t ! k)" by (rule set_takeWhileD[THEN conjunct2])
  moreover from a have "?t ! k = drop p s ! k" by (simp add: span_def takeWhile_nth)
  ultimately show ?thesis using 1 by simp
qed

lemma span_end:
  "p + span rs s p < length s \<Longrightarrow> \<not> in_class rs (s ! (p + span rs s p))"
proof -
  assume a: "p + span rs s p < length s"
  then have "length (takeWhile (in_class rs) (drop p s)) < length (drop p s)"
    by (simp add: span_def)
  from nth_length_takeWhile[OF this] a show ?thesis by (simp add: span_def)
qed

lemma span_le: "p + span rs s p \<le> length s \<or> span rs s p = 0"
proof (cases "p \<le> length s")
  case True
  then show ?thesis
    using length_takeWhile_le[of "in_class rs" "drop p s"] unfolding span_def
    by (simp only: length_drop) linarith
next
  case False
  then show ?thesis by (simp add: span_def)
qed

lemma concat_map_empty: "(\<And>x. x \<in> set xs \<Longrightarrow> f x = []) \<Longrightarrow> concat (map f xs) = []"
  by (induction xs) auto

text \<open>
  A greedy run of digits followed by a pattern that cannot start at a digit: only the
  longest run can lead to a match.
\<close>

lemma matches_plus_digit:
  assumes "\<And>e g. e < length s \<Longrightarrow> in_class digit (s ! e) \<Longrightarrow> matches T s (e, g) = []"
  shows "matches (Seq (Plus digit) T) s (b, g) =
     (if span digit s b = 0 then [] else matches T s (b + span digit s b, g))"
proof (cases "span digit s b")
  case 0
  then show ?thesis by simp
next
  case (Suc d)
  have r: "rev [1..<Suc d + 1] = Suc d # rev [1..<Suc d]" by simp
  have "concat (map (\<lambda>k. matches T s (b + k, g)) (rev [1..<Suc d])) = []"
  proof (rule concat_map_empty)
    fix k assume "k \<in> set (rev [1..<Suc d])"
    then have "k < span digit s b" using Suc by auto
    from span_digit[OF this] show "matches T s (b + k, g) = []"
      by (simp only: assms)
  qed
  then show ?thesis using Suc r by (simp add: comp_def del: upt_Suc)
qed

lemma matches_bnd:
  "matches (Grp i (Alt Eol (Chr 32))) s (e, g) =
     (if at_end s e then [(e, g(i \<mapsto> (e, e)))]
      else if e < length s \<and> s ! e = 32 then [(e + 1, g(i \<mapsto> (e, e + 1)))] else [])"
  by (auto simp: at_end_def)

lemma matches_tail:
  "matches (Seq (Opt (Grp 3 (Cls eul))) (Grp 4 (Alt Eol (Chr 32)))) s (e, g) =
     (if e < length s \<and> in_class eul (s ! e)
      then matches (Grp 4 (Alt Eol (Chr 32))) s (e + 1, g(3 \<mapsto> (e, e + 1)))
      else matches (Grp 4 (Alt Eol (Chr 32))) s (e, g))"
  by (auto simp: at_end_def eul_def)

lemma matches_tail_digit:
  "e < length s \<Longrightarrow> in_class digit (s ! e) \<Longrightarrow>
   matches (Seq (Opt (Grp 3 (Cls eul))) (Grp 4 (Alt Eol (Chr 32)))) s (e, g) = []"
  by (auto simp: eul_def digit_def at_end_def)

lemma matches_lead:
  "matches (Seq (Grp i (Alt Bol (Chr 32))) X) s (p, g) =
     (if p = 0 then matches X s (0, g(i \<mapsto> (0, 0))) else [])
     @ (if p < length s \<and> s ! p = 32 then matches X s (p + 1, g(i \<mapsto> (p, p + 1))) else [])"
  by auto

lemma matches_hash:
  "matches (Seq (Chr 35) X) s (h, g) =
     (if h < length s \<and> s ! h = 35 then matches X s (h + 1, g) else [])"
  by auto

lemma matches_from_hash:
  "matches (Seq (Chr 35) (Seq (Plus digit)
       (Seq (Opt (Grp 3 (Cls eul))) (Grp 4 (Alt Eol (Chr 32)))))) s (h, g) =
     (if h < length s \<and> s ! h = 35 \<and> span digit s (h + 1) \<noteq> 0 then
        matches (Grp 4 (Alt Eol (Chr 32))) s
          (letter_end s h,
           if letter_end s h = h + 1 + span digit s (h + 1) then g
           else g(3 \<mapsto> (h + 1 + span digit s (h + 1), letter_end s h)))
      else [])"
proof -
  let ?T = "Seq (Opt (Grp 3 (Cls eul))) (Grp 4 (Alt Eol (Chr 32)))"
  let ?e = "h + 1 + span digit s (h + 1)"
  have 1: "matches (Seq (Plus digit) ?T) s (h + 1, g) =
     (if span digit s (h + 1) = 0 then [] else matches ?T s (?e, g))"
    by (rule matches_plus_digit[of s ?T "h + 1" g, OF matches_tail_digit])
  have 2: "matches ?T s (?e, g) =
     matches (Grp 4 (Alt Eol (Chr 32))) s
          (letter_end s h,
           if letter_end s h = ?e then g else g(3 \<mapsto> (?e, letter_end s h)))"
    by (simp only: matches_tail letter_end_def Let_def) (simp del: matches.simps)
  show ?thesis by (simp only: matches_hash 1 2) (simp del: matches.simps)
qed

lemma matches_token:
  "matches (Seq (Chr 35) (Seq (Plus digit)
       (Seq (Opt (Grp 3 (Cls eul))) (Grp 4 (Alt Eol (Chr 32)))))) s (h, g) =
     (if token_here s h then
        [(match_end s h,
          (if letter_end s h = h + 1 + span digit s (h + 1) then g
           else g(3 \<mapsto> (h + 1 + span digit s (h + 1), letter_end s h)))
          (4 \<mapsto> (letter_end s h, match_end s h)))]
      else [])"
  by (simp only: matches_from_hash matches_bnd token_here_def match_end_def)
     (simp del: matches.simps)

lemma matches_issue_findall_re:
  "matches issue_findall_re s (p, Map.empty) =
     (case token_start s p of None \<Rightarrow> [] | Some h \<Rightarrow> [(p, caps s p h)])"
proof -
  let ?X = "Seq (Chr 35) (Seq (Plus digit)
       (Seq (Opt (Grp 3 (Cls eul))) (Grp 4 (Alt Eol (Chr 32)))))"
  have b: "matches (Seq (Grp 2 (Alt Bol (Chr 32))) ?X) s (p, Map.empty) =
     (if p = 0 then matches ?X s (0, [2 \<mapsto> (0, 0)]) else [])
     @ (if p < length s \<and> s ! p = 32 then matches ?X s (p + 1, [2 \<mapsto> (p, p + 1)]) else [])"
    by (rule matches_lead)
  have "matches issue_findall_re s (p, Map.empty) =
     (case map (\<lambda>(q, g'). (q, g'(1 \<mapsto> (p, q))))
             (matches (Seq (Grp 2 (Alt Bol (Chr 32))) ?X) s (p, Map.empty)) of
        [] \<Rightarrow> [] | (q, g') # rest \<Rightarrow> [(p, g')])"
    by (simp add: issue_findall_re_def del: matches.simps add: matches.simps(11,12))
  also have "\<dots> = (case token_start s p of None \<Rightarrow> [] | Some h \<Rightarrow> [(p, caps s p h)])"
    by (simp only: b matches_token) (auto simp: token_start_def caps_def simp del: matches.simps)
  finally show ?thesis .
qed

lemma match_at_issue_findall_re:
  "match_at issue_findall_re s p = map_option (\<lambda>h. (p, caps s p h)) (token_start s p)"
  by (simp add: match_at_def matches_issue_findall_re split: option.splits)

lemma take_drop_split:
  "a \<le> b \<Longrightarrow> b \<le> c \<Longrightarrow>
   take (c - a) (drop a s) = take (b - a) (drop a s) @ take (c - b) (drop b s)"
proof -
  assume ab: "a \<le> b" and bc: "b \<le> c"
  then have "c - a = (b - a) + (c - b)" by simp
  then have "take (c - a) (drop a s) = take ((b - a) + (c - b)) (drop a s)" by simp
  also have "\<dots> = take (b - a) (drop a s) @ take (c - b) (drop (b - a) (drop a s))"
    by (rule take_add)
  finally show ?thesis using ab by simp
qed

lemma take_one_drop: "a < length s \<Longrightarrow> take (Suc a - a) (drop a s) = [s ! a]"
proof -
  assume a: "a < length s"
  have 1: "Suc a - a = Suc 0" by simp
  from a have 2: "take (Suc 0) (drop a s) = [s ! a]"
    by (metis Cons_nth_drop_Suc take0 take_Suc_Cons)
  show ?thesis by (simp only: 1 2)
qed

lemma span_takeWhile: "take (span rs s b) (drop b s) = takeWhile (in_class rs) (drop b s)"
  unfolding span_def by (rule takeWhile_eq_take[symmetric])

lemma digits_of_props:
  "span digit s (h + 1) \<noteq> 0 \<Longrightarrow>
   digits_of s h \<noteq> [] \<and> list_all (in_class digit) (digits_of s h)
   \<and> length (digits_of s h) = span digit s (h + 1)"
proof -
  assume a: "span digit s (h + 1) \<noteq> 0"
  have t: "digits_of s h = takeWhile (in_class digit) (drop (h + 1) s)"
    unfolding digits_of_def by (rule span_takeWhile)
  have "list_all (in_class digit) (digits_of s h)"
    unfolding t list_all_iff using set_takeWhileD by fast
  moreover have "length (digits_of s h) = span digit s (h + 1)"
    unfolding t by (simp add: span_def)
  ultimately show ?thesis using a by auto
qed

lemma letter_end_cases:
  "letter_end s h = h + 1 + span digit s (h + 1) \<and> letter_of s h = []
   \<or> letter_end s h = h + 1 + span digit s (h + 1) + 1
      \<and> h + 1 + span digit s (h + 1) < length s
      \<and> letter_of s h = [s ! (h + 1 + span digit s (h + 1))]
      \<and> s ! (h + 1 + span digit s (h + 1)) \<in> {101, 117, 108}"
  using take_one_drop[of "h + 1 + span digit s (h + 1)" s]
  by (auto simp: letter_end_def letter_of_def Let_def eul_def)

lemma letter_end_ge: "h + 1 + span digit s (h + 1) \<le> letter_end s h"
  by (simp add: letter_end_def Let_def)

lemma match_end_ge: "letter_end s h \<le> match_end s h"
  by (simp add: match_end_def)

lemma group_caps:
  "group s (caps s p h) 1 = take (match_end s h - p) (drop p s)"
  "group s (caps s p h) 2 = take (h - p) (drop p s)"
  "group s (caps s p h) 3 = letter_of s h"
  by (simp_all add: group_def caps_def letter_of_def)

text \<open>The text of the token at \<open>h\<close> and of the first group.\<close>

lemma token_text:
  assumes "token_here s h"
  shows "take (letter_end s h - h) (drop h s) = 35 # digits_of s h @ letter_of s h"
proof -
  let ?e = "h + 1 + span digit s (h + 1)"
  from assms have h: "h < length s" "s ! h = 35" by (simp_all add: token_here_def)
  have "take (letter_end s h - h) (drop h s)
          = take (Suc h - h) (drop h s) @ take (letter_end s h - Suc h) (drop (Suc h) s)"
    using letter_end_ge[of h s] by (intro take_drop_split) simp_all
  also have "take (letter_end s h - Suc h) (drop (Suc h) s)
          = take (?e - Suc h) (drop (Suc h) s) @ take (letter_end s h - ?e) (drop ?e s)"
    using letter_end_ge[of h s] by (intro take_drop_split) simp_all
  finally show ?thesis using h take_one_drop[OF h(1)]
    by (simp add: digits_of_def letter_of_def)
qed

lemma trail_text:
  assumes "token_here s h"
  shows "take (match_end s h - letter_end s h) (drop (letter_end s h) s)
           = (if at_end s (letter_end s h) then [] else [32])"
  using assms take_one_drop[of "letter_end s h" s]
  by (auto simp: token_here_def match_end_def)

lemma lead_text:
  assumes "token_start s p = Some h"
  shows "take (h - p) (drop p s) = (if h = p then [] else [32])"
  using assms take_one_drop[of p s]
  by (auto simp: token_start_def split: if_splits)

lemma token_start_props:
  assumes "token_start s p = Some h"
  shows "token_here s h" "p \<le> h" "h \<le> p + 1" "h = p \<longrightarrow> p = 0"
        "h \<noteq> p \<longrightarrow> p < length s \<and> s ! p = 32"
  using assms by (auto simp: token_start_def split: if_splits)

lemma first_group_text:
  assumes "token_start s p = Some h"
  shows "take (match_end s h - p) (drop p s)
     = (if h = p then [] else [32]) @ 35 # digits_of s h @ letter_of s h
       @ (if at_end s (letter_end s h) then [] else [32])"
proof -
  note t = token_start_props[OF assms]
  have hl: "h \<le> letter_end s h" using letter_end_ge[of h s] by simp
  have "take (match_end s h - p) (drop p s)
        = take (h - p) (drop p s) @ take (match_end s h - h) (drop h s)"
    using t(2) hl match_end_ge[of s h] by (intro take_drop_split) simp_all
  also have "take (match_end s h - h) (drop h s)
        = take (letter_end s h - h) (drop h s)
          @ take (match_end s h - letter_end s h) (drop (letter_end s h) s)"
    using hl match_end_ge[of s h] by (intro take_drop_split) simp_all
  finally show ?thesis
    by (simp only: lead_text[OF assms] token_text[OF t(1)] trail_text[OF t(1)]) simp
qed

lemma digits_ends:
  "ds \<noteq> [] \<Longrightarrow> list_all (in_class digit) ds \<Longrightarrow>
   in_class digit (hd ds) \<and> in_class digit (last ds)"
  by (cases ds) (auto simp: list_all_iff)

lemma strip_digits:
  assumes "ds \<noteq> []" "list_all (in_class digit) ds"
    and "list_all (\<lambda>c. \<not> in_class digit c) chars" "set pre \<subseteq> set chars"
  shows "strip chars (pre @ ds @ post)
           = ds @ rev (dropWhile (\<lambda>c. c \<in> set chars) (rev post))"
proof -
  let ?P = "\<lambda>c. c \<in> set chars"
  from digits_ends[OF assms(1,2)] assms(3)
  have e: "\<not> ?P (hd ds)" "\<not> ?P (last ds)" by (auto simp: list_all_iff)
  from assms(1) e(1) have d: "dropWhile ?P (ds @ post) = ds @ post"
    by (cases ds) simp_all
  have "dropWhile ?P (pre @ ds @ post) = dropWhile ?P (ds @ post)"
    using assms(4) by (intro dropWhile_append2) auto
  with d have l: "lstrip chars (pre @ ds @ post) = ds @ post" by (simp add: lstrip_def)
  from assms(1) e(2) have r: "dropWhile ?P (rev ds) = rev ds"
    by (cases ds rule: rev_cases) simp_all
  show ?thesis
    unfolding strip_def l by (simp add: dropWhile_append r)
qed

lemma strip_digits0:
  assumes "ds \<noteq> []" "list_all (in_class digit) ds"
    and "list_all (\<lambda>c. \<not> in_class digit c) chars"
  shows "strip chars (ds @ post) = ds @ rev (dropWhile (\<lambda>c. c \<in> set chars) (rev post))"
  using strip_digits[OF assms, of "[]" post] by simp

lemma reference_of_text:
  assumes ds: "ds \<noteq> []" "list_all (in_class digit) ds"
    and lead: "lead = [] \<or> lead = [32]"
    and sfx: "sfx \<in> {[], lit ''e'', lit ''u'', lit ''l''}"
    and trail: "trail = [] \<or> trail = [32]"
  shows "issue_number (lead @ 35 # ds @ sfx @ trail, a, b, c) = ds
       \<and> repo (lead @ 35 # ds @ sfx @ trail, a, b, c) = selected_repo sfx"
proof -
  have c: "list_all (\<lambda>c. \<not> in_class digit c) (lit ''#e '')"
          "list_all (\<lambda>c. \<not> in_class digit c) (lit ''#u '')"
          "list_all (\<lambda>c. \<not> in_class digit c) (lit ''#l '')"
    by (simp_all add: lit_def digit_def)
  have p: "set (lead @ [35]) \<subseteq> set (lit ''#e '')"
    using lead by (auto simp: lit_def)
  have 1: "strip (lit ''#e '') (lead @ 35 # ds @ sfx @ trail)
        = ds @ rev (dropWhile (\<lambda>c. c \<in> set (lit ''#e '')) (rev (sfx @ trail)))"
    using strip_digits[OF ds c(1) p, of "sfx @ trail"] by simp
  have 2: "strip [35, 117, 32] (ds @ post)
        = ds @ rev (dropWhile (\<lambda>c. c = 35 \<or> c = 117 \<or> c = 32) (rev post))" for post
    using strip_digits0[OF ds c(2), of post] by (simp add: lit_def)
  have 3: "strip [35, 108, 32] (ds @ post)
        = ds @ rev (dropWhile (\<lambda>c. c = 35 \<or> c = 108 \<or> c = 32) (rev post))" for post
    using strip_digits0[OF ds c(3), of post] by (simp add: lit_def)
  have n: "issue_number (lead @ 35 # ds @ sfx @ trail, a, b, c) = ds"
    unfolding issue_number_def fst_conv 1
    using sfx trail
    by (auto simp: 2 3 2[of "[]", simplified] 3[of "[]", simplified] lit_def)
  have nd: "101 \<notin> set ds" "117 \<notin> set ds" "108 \<notin> set ds"
    using ds(2) by (auto simp: list_all_iff digit_def)
  have m: "101 \<in> set (lead @ 35 # ds @ sfx @ trail) \<longleftrightarrow> sfx = lit ''e''"
          "117 \<in> set (lead @ 35 # ds @ sfx @ trail) \<longleftrightarrow> sfx = lit ''u''"
          "108 \<in> set (lead @ 35 # ds @ sfx @ trail) \<longleftrightarrow> sfx = lit ''l''"
    using sfx trail lead nd by (auto simp: lit_def)
  have r: "repo (lead @ 35 # ds @ sfx @ trail, a, b, c) = selected_repo sfx"
    unfolding repo_def selected_repo_def fst_conv m by (rule refl)
  from n r show ?thesis ..
qed

lemma drop_eq_ConsD:
  assumes "drop n s = x # xs"
  shows "n < length s" "s ! n = x" "drop (Suc n) s = xs"
proof -
  from assms show n: "n < length s" by (cases "n < length s") simp_all
  from Cons_nth_drop_Suc[OF n] assms show "s ! n = x" "drop (Suc n) s = xs" by simp_all
qed

lemma takeWhile_prefix:
  "list_all P ds \<Longrightarrow> rest = [] \<or> \<not> P (hd rest) \<Longrightarrow> takeWhile P (ds @ rest) = ds"
  by (cases rest) (auto simp: list_all_iff)

lemma token_is_reference:
  assumes st: "token_start s p = Some h" and nn: "\<not> ends_with_newline s"
  shows "reference_token space s h (digits_of s h) (letter_of s h)"
proof -
  note t = token_start_props[OF st]
  from t(1) have sp: "span digit s (h + 1) \<noteq> 0" by (simp add: token_here_def)
  note d = digits_of_props[OF sp]
  have sfx: "letter_of s h \<in> {[], lit ''e'', lit ''u'', lit ''l''}"
    using letter_end_cases[of s h] by (auto simp: lit_def)
  have len: "h + length (35 # digits_of s h @ letter_of s h) = letter_end s h"
    using letter_end_cases[of s h] d by auto
  then have len': "length (35 # digits_of s h @ letter_of s h) = letter_end s h - h" by simp
  have tk: "take (length (35 # digits_of s h @ letter_of s h)) (drop h s)
               = 35 # digits_of s h @ letter_of s h"
    unfolding len' by (rule token_text[OF t(1)])
  have left: "h = 0 \<or> space (s ! (h - 1))"
  proof (cases "h = p")
    case True
    with t(4) show ?thesis by simp
  next
    case False
    with t(2,3) have "h - 1 = p" by simp
    with False t(5) show ?thesis by (simp add: space_def)
  qed
  have "\<not> (letter_end s h + 1 = length s \<and> s ! letter_end s h = 10)"
  proof
    assume a: "letter_end s h + 1 = length s \<and> s ! letter_end s h = 10"
    then have ne: "s \<noteq> []" by auto
    from a have "length s - 1 = letter_end s h" by linarith
    with a ne have "last s = 10" by (simp add: last_conv_nth)
    with ne nn show False by (simp add: ends_with_newline_def)
  qed
  with t(1) have right: "letter_end s h = length s \<or> space (s ! letter_end s h)"
    by (auto simp: token_here_def at_end_def space_def)
  show ?thesis
    unfolding reference_token_def len
    using d sfx tk left right by simp
qed

lemma reference_is_token:
  assumes r: "reference_token space s h ds sfx"
  shows "token_start s (if h = 0 then 0 else h - 1) = Some h
       \<and> digits_of s h = ds \<and> letter_of s h = sfx"
proof -
  let ?n = "length (35 # ds @ sfx)"
  let ?R = "drop (h + ?n) s"
  let ?e = "h + 1 + length ds"
  from r have ds: "ds \<noteq> []" "list_all (in_class digit) ds"
    and sfx: "sfx \<in> {[], lit ''e'', lit ''u'', lit ''l''}"
    and tk: "take ?n (drop h s) = 35 # ds @ sfx"
    and left: "h = 0 \<or> space (s ! (h - 1))"
    and right: "h + ?n = length s \<or> space (s ! (h + ?n))"
    by (simp_all add: reference_token_def)
  have "drop h s = take ?n (drop h s) @ drop ?n (drop h s)"
    by (rule append_take_drop_id[symmetric])
  also have "drop ?n (drop h s) = ?R" by (simp add: add.commute)
  finally have "drop h s = take ?n (drop h s) @ ?R" .
  then have dh: "drop h s = 35 # ds @ sfx @ ?R"
    unfolding tk by simp
  note h = drop_eq_ConsD[OF dh]
  from arg_cong[OF tk, of length] have bound: "h + ?n \<le> length s" by simp
  have R: "?R = [] \<or> hd ?R = 32"
  proof (cases "h + ?n = length s")
    case True then show ?thesis by simp
  next
    case False
    with bound right have "h + ?n < length s" "s ! (h + ?n) = 32" by (simp_all add: space_def)
    then show ?thesis by (simp add: hd_drop_conv_nth)
  qed
  have nd: "sfx @ ?R = [] \<or> \<not> in_class digit (hd (sfx @ ?R))"
    using sfx R by (auto simp: lit_def digit_def)
  have sp: "span digit s (h + 1) = length ds"
    unfolding span_def using h(3) takeWhile_prefix[OF ds(2) nd] by simp
  from sp have sp': "span digit s (Suc h) = length ds" by simp
  have dg: "digits_of s h = ds"
    unfolding digits_of_def sp using h(3) by simp
  have de: "drop ?e s = sfx @ ?R"
  proof -
    have "drop ?e s = drop (length ds) (drop (Suc h) s)" by (simp add: add.commute)
    then show ?thesis unfolding h(3) by simp
  qed
  have le: "letter_end s h = h + ?n \<and> letter_of s h = sfx"
  proof (cases "sfx = []")
    case True
    from R have "\<not> (?e < length s \<and> in_class eul (s ! ?e))"
    proof
      assume "?R = []" with True show ?thesis by simp
    next
      assume "hd ?R = 32"
      then show ?thesis using True de by (auto simp: hd_drop_conv_nth eul_def)
    qed
    then show ?thesis using True by (simp add: letter_end_def letter_of_def sp' Let_def)
  next
    case False
    with sfx obtain c where c: "sfx = [c]" "in_class eul c" by (auto simp: lit_def eul_def)
    from de c have "drop ?e s = c # ?R" by simp
    note e = drop_eq_ConsD[OF this]
    from e(1,2) c have l: "letter_end s h = ?e + 1"
      by (simp add: letter_end_def sp' Let_def)
    have "take (Suc ?e - ?e) (drop ?e s) = [s ! ?e]" by (rule take_one_drop[OF e(1)])
    with l e(2) c show ?thesis by (simp add: letter_of_def sp')
  qed
  have th: "token_here s h"
    unfolding token_here_def using h(1,2) sp sp' ds(1) le bound right
    by (auto simp: at_end_def space_def)
  have ts: "token_start s (if h = 0 then 0 else h - 1) = Some h"
  proof (cases "h = 0")
    case True
    with th show ?thesis by (simp add: token_start_def)
  next
    case False
    with left h(1) have p: "h - 1 < length s" "s ! (h - 1) = 32" by (simp_all add: space_def)
    have "\<not> (h - 1 = 0 \<and> token_here s 0)" using p by (auto simp: token_here_def)
    with False p th show ?thesis by (simp add: token_start_def)
  qed
  from ts dg le show ?thesis by simp
qed

lemma set_map_filter:
  "set (List.map_filter f xs) = {y. \<exists>x. x \<in> set xs \<and> f x = Some y}"
  by (induction xs) (auto split: option.splits)

lemma map_map_filter:
  "map g (List.map_filter f xs) = List.map_filter (map_option g \<circ> f) xs"
  by (induction xs) (auto split: option.splits)

lemma map_filter_append:
  "List.map_filter f (xs @ ys) = List.map_filter f xs @ List.map_filter f ys"
  by (induction xs) (auto split: option.splits)

lemma references_at_eq:
  "references_at s =
     List.map_filter
       (\<lambda>p. map_option (\<lambda>h. (h, digits_of s h, selected_repo (letter_of s h))) (token_start s p))
       [0..<length s + 1]"
proof -
  have "(map_option (\<lambda>(p, i). (p + length (fst (snd i)), issue_number i, repo i)) \<circ>
          (\<lambda>p. case match_at issue_findall_re s p of
                 None \<Rightarrow> None
               | Some (q, g) \<Rightarrow> Some (p, group s g 1, group s g 2, group s g 3, group s g 4))) p
        = map_option (\<lambda>h. (h, digits_of s h, selected_repo (letter_of s h))) (token_start s p)"
    for p
  proof (cases "token_start s p")
    case None
    then show ?thesis by (simp add: match_at_issue_findall_re)
  next
    case (Some h)
    note t = token_start_props[OF Some]
    from t(1) have sp: "span digit s (h + 1) \<noteq> 0" and hl: "h < length s"
      by (simp_all add: token_here_def)
    note d = digits_of_props[OF sp]
    have sfx: "letter_of s h \<in> {[], lit ''e'', lit ''u'', lit ''l''}"
      using letter_end_cases[of s h] by (auto simp: lit_def)
    have r: "issue_number ((if h = p then [] else [32]) @ 35 # digits_of s h @ letter_of s h
                @ (if at_end s (letter_end s h) then [] else [32]), a, b, c) = digits_of s h
           \<and> repo ((if h = p then [] else [32]) @ 35 # digits_of s h @ letter_of s h
                @ (if at_end s (letter_end s h) then [] else [32]), a, b, c)
             = selected_repo (letter_of s h)" for a b c
      by (rule reference_of_text) (use d sfx in simp_all)
    have l2: "p + length (take (h - p) (drop p s)) = h"
      using t(2) hl by simp
    show ?thesis
      unfolding comp_def match_at_issue_findall_re Some
      by (simp only: option.map option.case prod.case group_caps fst_conv snd_conv l2
            first_group_text[OF Some] r)
  qed
  then have "(map_option (\<lambda>(p, i). (p + length (fst (snd i)), issue_number i, repo i)) \<circ>
          (\<lambda>p. case match_at issue_findall_re s p of
                 None \<Rightarrow> None
               | Some (q, g) \<Rightarrow> Some (p, group s g 1, group s g 2, group s g 3, group s g 4)))
        = (\<lambda>p. map_option (\<lambda>h. (h, digits_of s h, selected_repo (letter_of s h)))
                 (token_start s p))"
    by (rule ext)
  then show ?thesis
    unfolding references_at_def findall_at_def map_map_filter by (rule arg_cong)
qed

lemma references_at_iff:
  "(h, num, rp) \<in> set (references_at s) \<longleftrightarrow>
     (\<exists>p\<le>length s. token_start s p = Some h \<and> num = digits_of s h
         \<and> rp = selected_repo (letter_of s h))"
proof -
  have "set [0..<length s + 1] = {p. p \<le> length s}" by auto
  then show ?thesis unfolding references_at_eq set_map_filter by blast
qed

lemma sorted_map_filter:
  assumes "\<And>p x. f p = Some x \<Longrightarrow> p \<le> key x \<and> key x \<le> p + 1 \<and> (key x = p \<longrightarrow> p = 0)"
  shows "sorted_wrt (<) (map key (List.map_filter f [0..<n]))"
proof (induction n)
  case 0
  show ?case by simp
next
  case (Suc n)
  have a: "List.map_filter f [0..<Suc n] = List.map_filter f [0..<n] @ List.map_filter f [n]"
    by (simp add: map_filter_append)
  have "key x < key y" if x: "x \<in> set (List.map_filter f [0..<n])"
    and y: "y \<in> set (List.map_filter f [n])" for x y
  proof -
    from x obtain p where p: "p < n" "f p = Some x" by (auto simp: set_map_filter)
    from y have q: "f n = Some y" by (cases "f n") simp_all
    from assms[OF p(2)] assms[OF q] p(1) show ?thesis by auto
  qed
  moreover have "sorted_wrt (<) (map key (List.map_filter f [n]))"
    by (cases "f n") simp_all
  ultimately show ?case
    unfolding a using Suc.IH by (auto simp: sorted_wrt_append)
qed

lemma references_at_sorted: "sorted_wrt (<) (map fst (references_at s))"
  unfolding references_at_eq
proof (rule sorted_map_filter)
  fix p x
  assume "map_option (\<lambda>h. (h, digits_of s h, selected_repo (letter_of s h))) (token_start s p)
            = Some x"
  then obtain h where h: "token_start s p = Some h" "fst x = h" by auto
  from token_start_props[OF h(1)] h(2)
  show "p \<le> fst x \<and> fst x \<le> p + 1 \<and> (fst x = p \<longrightarrow> p = 0)" by simp
qed

lemma matches_tail2:
  "matches (Seq (Opt (Grp 2 (Alt (Chr 101) (Alt (Chr 117) (Chr 108)))))
              (Grp 3 (Alt Eol (Chr 32)))) s (e, g) =
     (if e < length s \<and> in_class eul (s ! e)
      then matches (Grp 3 (Alt Eol (Chr 32))) s (e + 1, g(2 \<mapsto> (e, e + 1)))
      else matches (Grp 3 (Alt Eol (Chr 32))) s (e, g))"
  by (auto simp: at_end_def eul_def)

lemma matches_tail2_digit:
  "e < length s \<Longrightarrow> in_class digit (s ! e) \<Longrightarrow>
   matches (Seq (Opt (Grp 2 (Alt (Chr 101) (Alt (Chr 117) (Chr 108)))))
              (Grp 3 (Alt Eol (Chr 32)))) s (e, g) = []"
  by (auto simp: eul_def digit_def at_end_def)

lemma matches_search_token:
  "matches (Seq (Chr 35) (Seq (Plus digit)
       (Seq (Opt (Grp 2 (Alt (Chr 101) (Alt (Chr 117) (Chr 108)))))
            (Grp 3 (Alt Eol (Chr 32)))))) s (h, g) \<noteq> [] \<longleftrightarrow> token_here s h"
proof -
  let ?T = "Seq (Opt (Grp 2 (Alt (Chr 101) (Alt (Chr 117) (Chr 108)))))
              (Grp 3 (Alt Eol (Chr 32)))"
  let ?e = "h + 1 + span digit s (h + 1)"
  have 1: "matches (Seq (Plus digit) ?T) s (h + 1, g) =
     (if span digit s (h + 1) = 0 then [] else matches ?T s (?e, g))"
    by (rule matches_plus_digit[of s ?T "h + 1" g, OF matches_tail2_digit])
  have 2: "matches ?T s (?e, g) \<noteq> [] \<longleftrightarrow>
     at_end s (letter_end s h) \<or> (letter_end s h < length s \<and> s ! letter_end s h = 32)"
    by (simp only: matches_tail2 matches_bnd letter_end_def Let_def) (simp del: matches.simps)
  show ?thesis
    by (simp only: matches_hash 1 token_here_def) (use 2 in \<open>auto simp del: matches.simps\<close>)
qed

lemma match_at_issue_search_re:
  "match_at issue_search_re s p \<noteq> None \<longleftrightarrow> token_start s p \<noteq> None"
proof -
  let ?X = "Seq (Chr 35) (Seq (Plus digit)
       (Seq (Opt (Grp 2 (Alt (Chr 101) (Alt (Chr 117) (Chr 108)))))
            (Grp 3 (Alt Eol (Chr 32)))))"
  have "match_at issue_search_re s p \<noteq> None
          \<longleftrightarrow> matches (Seq (Grp 1 (Alt Bol (Chr 32))) ?X) s (p, Map.empty) \<noteq> []"
    by (simp add: match_at_def issue_search_re_def split: list.splits del: matches.simps)
  also have "\<dots> \<longleftrightarrow> token_start s p \<noteq> None"
    by (simp only: matches_lead) (auto simp: matches_search_token token_start_def
          simp del: matches.simps)
  finally show ?thesis .
qed

lemma map_filter_empty_iff:
  "List.map_filter f xs = [] \<longleftrightarrow> list_all (\<lambda>x. f x = None) xs"
  by (induction xs) (auto split: option.splits)

text \<open>
  The test of line 179 succeeds exactly when the generator has at least one match to
  iterate over.
\<close>

lemma search_iff_findall:
  "re_search issue_search_re s \<noteq> None \<longleftrightarrow> re_findall issue_findall_re s \<noteq> []"
proof -
  have "re_search issue_search_re s \<noteq> None
          \<longleftrightarrow> \<not> list_all (\<lambda>p. match_at issue_search_re s p = None) [0..<length s + 1]"
    unfolding re_search_def map_filter_empty_iff[symmetric]
    by (cases "List.map_filter (match_at issue_search_re s) [0..<length s + 1]")
       (simp_all del: upt_Suc)
  also have "\<dots> \<longleftrightarrow> \<not> list_all (\<lambda>p. match_at issue_findall_re s p = None) [0..<length s + 1]"
    using match_at_issue_search_re[of s]
    by (simp add: match_at_issue_findall_re list_all_iff del: upt_Suc)
  also have "\<dots> \<longleftrightarrow> re_findall issue_findall_re s \<noteq> []"
    by (simp add: re_findall_def findall_at_def map_filter_empty_iff list_all_iff
          split: option.splits del: upt_Suc)
  finally show ?thesis .
qed

lemma on_message_issues_eq:
  "on_message_issues session_get content = get_github_issues session_get content"
  using search_iff_findall[of content]
  by (cases "re_search issue_search_re content")
     (auto simp: on_message_issues_def get_github_issues_def)

lemmas eval_findall =
  references_def references_at_def re_findall_def findall_at_def match_at_def
  issue_findall_re_def lit_def digit_def eul_def span_def group_def upt_rec at_end_def
  issue_number_def repo_def strip_def lstrip_def nl_def

text \<open>
  Claim C7 as stated fails: the boundaries of the pattern are the space character, not
  any whitespace. In a message of two lines, \<open>#12\<close> on the first line is a token bounded
  by the start of the string and by a newline, and it is not found.
\<close>

theorem newline_bounded_reference_missed:
  "reference_token whitespace (lit ''#12'' @ nl @ lit ''done'') 0 (lit ''12'') []
   \<and> references_at (lit ''#12'' @ nl @ lit ''done'') = []
   \<and> references (lit ''#12'' @ nl @ lit ''done'') = []"
  by (simp add: reference_token_def whitespace_def eval_findall)

text \<open>
  Claim C7, as amended. For every message text that does not end in a newline, the
  extraction finds exactly the tokens made of \<open>#\<close>, one or more decimal digits and
  optionally one of the letters e, u, l, that are bounded on the left by the start of the
  string or a space character and on the right by the end of the string or a space
  character. The references come in the left-to-right order of the \<open>#\<close> of their
  tokens, one for each occurrence, each with the digits as its number and the repository
  that its letter selects; and the search that guards the iteration in \<open>on_message\<close>
  succeeds exactly when there is a reference.
\<close>

theorem references_found:
  assumes "\<not> ends_with_newline s"
  shows "sorted_wrt (<) (map fst (references_at s))
       \<and> (\<forall>h num rp. (h, num, rp) \<in> set (references_at s) \<longleftrightarrow>
             (\<exists>sfx. reference_token space s h num sfx \<and> rp = selected_repo sfx))
       \<and> references s = map snd (references_at s)
       \<and> (re_search issue_search_re s \<noteq> None \<longleftrightarrow> references s \<noteq> [])"
proof -
  have 2: "(h, num, rp) \<in> set (references_at s) \<longleftrightarrow>
             (\<exists>sfx. reference_token space s h num sfx \<and> rp = selected_repo sfx)" for h num rp
  proof
    assume "(h, num, rp) \<in> set (references_at s)"
    then obtain p where p: "token_start s p = Some h" "num = digits_of s h"
        "rp = selected_repo (letter_of s h)"
      unfolding references_at_iff by blast
    from token_is_reference[OF p(1) assms] p(2,3)
    show "\<exists>sfx. reference_token space s h num sfx \<and> rp = selected_repo sfx" by blast
  next
    assume "\<exists>sfx. reference_token space s h num sfx \<and> rp = selected_repo sfx"
    then obtain sfx where r: "reference_token space s h num sfx" "rp = selected_repo sfx"
      by blast
    note t = reference_is_token[OF r(1)]
    from t have "token_here s h" using token_start_props(1) by blast
    then have "h < length s" by (simp add: token_here_def)
    then have "(if h = 0 then 0 else h - 1) \<le> length s" by (cases h) simp_all
    with t r(2) show "(h, num, rp) \<in> set (references_at s)"
      unfolding references_at_iff by blast
  qed
  have 3: "references s = map snd (references_at s)"
    by (simp add: references_def references_at_def re_findall_def comp_def case_prod_unfold)
  have 4: "re_search issue_search_re s \<noteq> None \<longleftrightarrow> references s \<noteq> []"
    unfolding search_iff_findall references_def by simp
  from references_at_sorted 2 3 4 show ?thesis by blast
qed

theorem references_found_witness:
  "\<not> ends_with_newline (lit ''#1 #2e'')
   \<and> references_at (lit ''#1 #2e'')
       = [(0, lit ''1'', lit ''omega-numworks/omega''), (3, lit ''2'', lit ''numworks/epsilon'')]
   \<and> references (lit ''#1 #2e'')
       = [(lit ''1'', lit ''omega-numworks/omega''), (lit ''2'', lit ''numworks/epsilon'')]
   \<and> reference_token space (lit ''#1 #2e'') 3 (lit ''2'') (lit ''e'')"
  using references_found [of "lit ''#1 #2e''"]
  by (simp add: ends_with_newline_def reference_token_def space_def eval_findall)

section \<open>Properties of the colour tokens\<close>

lemma matches_Rep_numeral:
  "matches (Rep (numeral k) a) s st
     = concat (map (matches (Rep (pred_numeral k) a) s) (matches a s st))"
  by (simp add: numeral_eq_Suc)

lemma int_base16_example: "int_base16 (lit ''a1b2c3'') = Inr 10597059"
  by (simp add: int_base16_def strip_def lstrip_def lit_def hexdigit_def hex_value_def)

lemma int_base16_newline_example: "int_base16 (lit ''a1b2c3'' @ nl) = Inr 10597059"
  by (simp add: int_base16_def strip_def lstrip_def lit_def hexdigit_def hex_value_def nl_def)

lemma color_examples:
  "re_match color_re (lit ''#a1b2c3'') \<noteq> None"
  "re_match color_re (lit ''#a1b2c3x'') = None"
  "re_match color_re (lit ''foo #a1b2c3'') = None"
  "re_match color_re (lit ''#a1b2c3'' @ nl) \<noteq> None"
  by (simp_all add: re_match_def match_at_def color_re_def lit_def hexdigit_def at_end_def
        nl_def matches_Rep_numeral)

lemmas eval_color =
  on_message_color_def make_color_embed_def re_match_def match_at_def color_re_def
  lit_def hexdigit_def at_end_def lstrip_def strip_def color_service_down_def
  color_service_up_def nl_def matches_Rep_numeral
  int_base16_def hex_value_def color_line_def example_color_def capitalize_def
  upper_def lower_def

text \<open>
  Claim C9 does not hold of the code: for the colour token \<open>#a1b2c3\<close> and a colour
  service that answers with status 500, the notice with the status is sent, and then
  \<open>on_message\<close> performs a send-embed action all the same, with no embed.
\<close>

theorem failed_color_lookup_sends_none:
  "on_message_color color_service_down (lit ''#a1b2c3'')
     = ([HttpGet (lit ''https://www.thecolorapi.com/id?hex=a1b2c3''),
         Send (error_notice 500),
         SendEmbed None], Inr ())"
  by (simp add: eval_color)

lemma color_lookup_example:
  "on_message_color color_service_up (lit ''#a1b2c3'')
     = ([HttpGet (lit ''https://www.thecolorapi.com/id?hex=a1b2c3''),
         SendEmbed (Some \<lparr> embed_title = lit ''Tallow color'',
                            embed_url = None,
                            embed_description = lit ''**Hex:** #a1b2c3'' @ nl
                               @ lit ''**Rgb:**161, 178, 195'' @ nl
                               @ lit ''**Hsl:**210, 22%, 70%'' @ nl
                               @ lit ''**Hsv:**210, 17%, 76%'',
                            embed_color = Some 10597059,
                            embed_author = None,
                            embed_fields = [] \<rparr>)], Inr ())"
  by (simp add: eval_color)

lemma notice_500: "error_notice 500 = lit ''Erreur lors de la requ'' @ [234] @ lit ''te (500)''"
  by (simp add: error_notice_def str_int_def str_nat.simps lit_def)

lemma matches_Rep_Cls:
  "p \<le> length s \<Longrightarrow>
   matches (Rep n (Cls rs)) s (p, g) =
     (if p + n \<le> length s \<and> list_all (in_class rs) (take n (drop p s)) then [(p + n, g)]
      else [])"
proof (induction n arbitrary: p)
  case 0
  then show ?case by simp
next
  case (Suc n)
  show ?case
  proof (cases "p < length s")
    case False
    then show ?thesis by simp
  next
    case True
    then have d: "drop p s = s ! p # drop (Suc p) s" by (rule Cons_nth_drop_Suc[symmetric])
    have t: "take (Suc n) (drop p s) = s ! p # take n (drop (Suc p) s)"
      by (subst d) simp
    from True have "Suc p \<le> length s" by simp
    note ih = Suc.IH[OF this]
    show ?thesis using True by (simp add: ih t del: drop_Suc)
  qed
qed

lemma matches_color_re:
  "matches color_re s (0, Map.empty) =
     (if 7 \<le> length s \<and> s ! 0 = 35 \<and> list_all (in_class hexdigit) (take 6 (drop 1 s))
         \<and> at_end s 7
      then [(7, [1 \<mapsto> (1, 7)])] else [])"
proof (cases "0 < length s \<and> s ! 0 = 35")
  case False
  then show ?thesis by (auto simp: color_re_def)
next
  case True
  then have "Suc 0 \<le> length s" by (cases s) simp_all
  note r = matches_Rep_Cls[OF this, of 6 hexdigit]
  from True show ?thesis
    by (auto simp: color_re_def r simp del: matches.simps(9,10))
qed

text \<open>
  The colour check of line 172 accepts the strings made of \<open>#\<close> and six hexadecimal
  digits, and those strings followed by one newline.
\<close>

lemma color_check:
  "re_match color_re s \<noteq> None \<longleftrightarrow>
     (\<exists>hs. length hs = 6 \<and> list_all (in_class hexdigit) hs \<and> (s = 35 # hs \<or> s = 35 # hs @ [10]))"
proof
  assume "re_match color_re s \<noteq> None"
  then have c: "7 \<le> length s" "s ! 0 = 35" "list_all (in_class hexdigit) (take 6 (drop 1 s))"
      "at_end s 7"
    by (simp_all add: re_match_def match_at_def matches_color_re split: if_splits)
  let ?hs = "take 6 (drop 1 s)"
  from c(1) have "s \<noteq> []" by auto
  then have 1: "s = s ! 0 # drop 1 s" by (cases s) simp_all
  have 2: "drop 1 s = ?hs @ drop 7 s"
    using append_take_drop_id[of 6 "drop 1 s"] by simp
  have 3: "drop 7 s = [] \<or> drop 7 s = [10]"
  proof (cases "length s = 7")
    case True then show ?thesis by simp
  next
    case False
    with c(4) have l: "length s = 8" "s ! 7 = 10" by (simp_all add: at_end_def)
    then have "7 < length s" by simp
    then have "drop 7 s = s ! 7 # drop (Suc 7) s" by (rule Cons_nth_drop_Suc[symmetric])
    with l show ?thesis by simp
  qed
  from c(1) have 4: "length ?hs = 6" by simp
  from 1 2 c(2) have "s = 35 # ?hs @ drop 7 s" by metis
  with 3 have "s = 35 # ?hs \<or> s = 35 # ?hs @ [10]" by auto
  with 4 c(3) show "\<exists>hs. length hs = 6 \<and> list_all (in_class hexdigit) hs
      \<and> (s = 35 # hs \<or> s = 35 # hs @ [10])" by blast
next
  assume "\<exists>hs. length hs = 6 \<and> list_all (in_class hexdigit) hs
      \<and> (s = 35 # hs \<or> s = 35 # hs @ [10])"
  then obtain hs where hs: "length hs = 6" "list_all (in_class hexdigit) hs"
      "s = 35 # hs \<or> s = 35 # hs @ [10]" by blast
  from hs(3) show "re_match color_re s \<noteq> None"
  proof
    assume "s = 35 # hs"
    with hs(1,2) show ?thesis
      by (simp add: re_match_def match_at_def matches_color_re at_end_def)
  next
    assume "s = 35 # hs @ [10]"
    with hs(1,2) show ?thesis
      by (simp add: re_match_def match_at_def matches_color_re at_end_def nth_append)
  qed
qed

text \<open>
  When the colour lookup fails, \<open>on_message\<close> sends the notice and then still calls
  \<open>send\<close>, with \<open>embed=None\<close>.
\<close>

lemma failed_color_lookup:
  assumes "re_match color_re content \<noteq> None"
    and "fst (color_get (lit ''https://www.thecolorapi.com/id?hex='' @ lstrip (lit ''#'') content))
           \<noteq> 200"
  shows "on_message_color color_get content
     = ([HttpGet (lit ''https://www.thecolorapi.com/id?hex='' @ lstrip (lit ''#'') content),
         Send (error_notice (fst (color_get
            (lit ''https://www.thecolorapi.com/id?hex='' @ lstrip (lit ''#'') content)))),
         SendEmbed None], Inr ())"
  using assms by (simp add: on_message_color_def make_color_embed_def Let_def)

text \<open>
  Claim C8 does not hold of the code: the check also succeeds on \<open>#a1b2c3\<close> followed by
  a newline, which is not \<open>#\<close> and six hexadecimal digits, and the newline stays in the
  code that is looked up. The three examples of the claim behave as it says.
\<close>

theorem color_check_accepts_trailing_newline:
  "re_match color_re (lit ''#a1b2c3'' @ nl) \<noteq> None
   \<and> lstrip (lit ''#'') (lit ''#a1b2c3'' @ nl) = lit ''a1b2c3'' @ nl
   \<and> re_match color_re (lit ''#a1b2c3'') \<noteq> None
   \<and> re_match color_re (lit ''#a1b2c3x'') = None
   \<and> re_match color_re (lit ''foo #a1b2c3'') = None"
  by (simp add: re_match_def match_at_def color_re_def lit_def hexdigit_def at_end_def
        nl_def matches_Rep_numeral lstrip_def)

end
